theory Spec2Isabelle
  imports Main "HOL-Library.Multiset"
begin

section \<open>Python values\<close>

text \<open>
  A Python \<open>str\<close> is the list of its Unicode code points. \<open>u\<close> turns an ASCII
  literal into such a string.
\<close>

type_synonym str = "nat list"

definition u :: "string \<Rightarrow> str" where
  "u s = map of_char s"

text \<open>
  \<open>str.isspace()\<close>: true when the string has at least one character and every
  character is whitespace. The whitespace code points are those of CPython's
  \<open>_PyUnicode_IsWhitespace\<close>.
\<close>

definition is_whitespace :: "nat \<Rightarrow> bool" where
  "is_whitespace c =
     ((9 \<le> c \<and> c \<le> 13) \<or> (28 \<le> c \<and> c \<le> 32) \<or> c = 133 \<or> c = 160 \<or> c = 5760 \<or>
      (8192 \<le> c \<and> c \<le> 8202) \<or> c = 8232 \<or> c = 8233 \<or> c = 8239 \<or> c = 8287 \<or>
      c = 12288)"

definition isspace :: "str \<Rightarrow> bool" where
  "isspace s = (s \<noteq> [] \<and> list_all is_whitespace s)"

text \<open>
  Scalars: \<open>str\<close>, \<open>int\<close>, \<open>bool\<close>, \<open>None\<close>, and \<open>ObjV s\<close> for any other
  object that is neither a string nor a container (a float, a Decimal, bytes, an
  instance of a user class); such an object is represented by what \<open>str()\<close> returns
  on it, the only thing the code reads from it.
\<close>

datatype scalar = StrV str | IntV int | BoolV bool | NoneV | ObjV str

text \<open>
  A value is a scalar, a \<open>dict\<close> (its items in insertion order), a \<open>list\<close> or a
  \<open>tuple\<close>.
\<close>

datatype pyval =
    Scalar scalar
  | Dict "(scalar \<times> pyval) list"
  | List "pyval list"
  | Tuple "pyval list"

text \<open>The keys of a Python \<open>dict\<close> are pairwise different, at every level.\<close>

fun wf_value :: "pyval \<Rightarrow> bool" where
  "wf_value (Scalar s) = True"
| "wf_value (Dict kvs) = (distinct (map fst kvs) \<and> list_all (\<lambda>kv. wf_value (snd kv)) kvs)"
| "wf_value (List xs) = list_all wf_value xs"
| "wf_value (Tuple xs) = list_all wf_value xs"

datatype error =
    KeyError string
  | TypeError
  | CollaboratorError string

text \<open>\<open>str(n)\<close> for an \<open>int\<close>: the decimal digits, after a minus sign when negative.\<close>

fun digits :: "nat \<Rightarrow> str" where
  "digits n = (if n < 10 then [48 + n] else digits (n div 10) @ [48 + n mod 10])"

declare digits.simps [simp del]

definition str_int :: "int \<Rightarrow> str" where
  "str_int i = (if i < 0 then 45 # digits (nat (- i)) else digits (nat i))"

fun py_str :: "scalar \<Rightarrow> str" where
  "py_str (StrV s) = s"
| "py_str (IntV i) = str_int i"
| "py_str (BoolV b) = (if b then u ''True'' else u ''False'')"
| "py_str NoneV = u ''None''"
| "py_str (ObjV s) = s"

text \<open>
  \<open>input_row == ""\<close> holds for the empty string only. \<open>str(input_row).isspace()\<close>
  is the whitespace test on the string form; the string form of a dict, a list or a
  tuple starts with a bracket, so the test is false on a container.
\<close>

fun eq_empty_str :: "pyval \<Rightarrow> bool" where
  "eq_empty_str (Scalar (StrV s)) = (s = [])"
| "eq_empty_str _ = False"

fun str_isspace :: "pyval \<Rightarrow> bool" where
  "str_isspace (Scalar s) = isspace (py_str s)"
| "str_isspace _ = False"

section \<open>The null normalizer\<close>

text \<open>
  \<open>copy.deepcopy\<close> returns a value equal to its argument. \<open>dict_setitem\<close> is
  \<open>ret[k] = v\<close> on a dict: the value of an existing key is replaced in place, a new
  key is appended.
\<close>

definition deepcopy :: "pyval \<Rightarrow> pyval" where
  "deepcopy v = v"

fun dict_setitem :: "(scalar \<times> pyval) list \<Rightarrow> scalar \<Rightarrow> pyval \<Rightarrow> (scalar \<times> pyval) list" where
  "dict_setitem [] k v = [(k, v)]"
| "dict_setitem ((k', v') # kvs) k v =
     (if k' = k then (k, v) # kvs else (k', v') # dict_setitem kvs k v)"

text \<open>
  \<open>set_empty_values_null\<close> (sync.py, lines 70 to 89). The two loops are
  \<open>scrub_dict\<close> (over \<open>ret.items()\<close>) and \<open>scrub_seq\<close> (over \<open>enumerate(ret)\<close>);
  each carries the items still to visit and the current \<open>ret\<close>. The item assignment
  \<open>ret[i] = ...\<close> updates a list and raises \<open>TypeError\<close> on a tuple.
\<close>

function set_empty_values_null :: "pyval \<Rightarrow> error + pyval"
  and scrub_dict :: "(scalar \<times> pyval) list \<Rightarrow> (scalar \<times> pyval) list \<Rightarrow> error + (scalar \<times> pyval) list"
  and scrub_seq :: "bool \<Rightarrow> nat \<Rightarrow> pyval list \<Rightarrow> pyval list \<Rightarrow> error + pyval list"
where
  "set_empty_values_null input_row =
     (case (case deepcopy input_row of
              Dict kvs \<Rightarrow> map_sum id Dict (scrub_dict kvs kvs)
            | List xs \<Rightarrow> map_sum id List (scrub_seq False 0 xs xs)
            | Tuple xs \<Rightarrow> map_sum id Tuple (scrub_seq True 0 xs xs)
            | Scalar s \<Rightarrow> Inr (Scalar s)) of
        Inl e \<Rightarrow> Inl e
      | Inr ret \<Rightarrow>
          if eq_empty_str input_row \<or> str_isspace input_row then Inr (Scalar NoneV)
          else Inr ret)"
| "scrub_dict [] ret = Inr ret"
| "scrub_dict ((dict_key, dict_value) # items) ret =
     (case set_empty_values_null dict_value of
        Inl e \<Rightarrow> Inl e
      | Inr v \<Rightarrow> scrub_dict items (dict_setitem ret dict_key v))"
| "scrub_seq is_tuple dict_key [] ret = Inr ret"
| "scrub_seq is_tuple dict_key (dict_value # items) ret =
     (case set_empty_values_null dict_value of
        Inl e \<Rightarrow> Inl e
      | Inr v \<Rightarrow>
          if is_tuple then Inl TypeError
          else scrub_seq is_tuple (Suc dict_key) items (ret[dict_key := v]))"
  by pat_completeness auto
termination
  by (relation "measure (\<lambda>x. case x of
          Inl v \<Rightarrow> size v
        | Inr (Inl (items, ret)) \<Rightarrow> size_list (size_prod (\<lambda>_. 0) size) items
        | Inr (Inr (is_tuple, dict_key, items, ret)) \<Rightarrow> size_list size items)")
     (auto simp: deepcopy_def)

section \<open>Config, state and the outside world\<close>

text \<open>
  The config is a mapping whose options may be missing: \<open>config["bucket"]\<close> and
  \<open>config["start_date"]\<close> raise \<open>KeyError\<close> then, \<open>config.get\<close> falls back to
  its default. The table spec and the stream are the typed mappings of the spec's data
  model; their other entries are read by the collaborators only.
\<close>

record config =
  bucket :: "str option"
  table_suffix :: "str option"
  start_date :: "str option"
  set_empty_values_null_flag :: "bool option"

record table_spec =
  table_name :: str

record stream =
  schema :: pyval
  metadata :: pyval

text \<open>
  A timezone-aware \<open>datetime\<close>: the instant it denotes (microseconds since the epoch,
  UTC) and the offset of its timezone. Python compares two aware datetimes by their
  instants. Naive datetimes, and the \<open>TypeError\<close> of comparing a naive with an aware
  one, are not modelled.
\<close>

record datetime =
  instant :: int
  utcoffset :: int

record s3_file =
  key :: str
  last_modified :: datetime

record file_handle =
  source_key :: str
  raw_stream :: "nat list"

text \<open>
  The state maps a table name to its named bookmarks. The bookmark values this program
  writes and reads back are strings.
\<close>

type_synonym state = "str \<rightharpoonup> (str \<rightharpoonup> str)"

text \<open>
  What the program does to the outside, in program order: log lines, \<open>RECORD\<close> and
  \<open>STATE\<close> messages. The world also holds the number of clock readings so far, the
  byte streams the program has fetched, and the field size limit of the csv module (a
  process-wide setting). The program has no close call; when the Python runtime
  releases a stream nobody refers to any more is not part of this model.
\<close>

datatype log_msg =
    SyncingTable str
  | GettingFiles datetime
  | SyncingFile str
  | WroteRecords nat str

datatype event =
    Info log_msg
  | RecordMsg str pyval datetime
  | StateMsg state

record world =
  trace :: "event list"
  ticks :: nat
  open_streams :: "file_handle list"
  csv_field_size_limit :: int

text \<open>
  The collaborators of section 6 of the spec, which the program calls and does not
  implement: date parsing and formatting, storage discovery and fetch, the row
  iterator (the rows it yields, an \<open>Inl\<close> item where it raises), the schema
  transformer and the clock (the reading at each tick).
\<close>

record externals =
  strptime_with_tz :: "str \<Rightarrow> error + datetime"
  isoformat :: "datetime \<Rightarrow> str"
  list_eligible_files :: "config \<Rightarrow> table_spec \<Rightarrow> datetime \<Rightarrow> error + s3_file list"
  open_file :: "config \<Rightarrow> str \<Rightarrow> error + file_handle"
  get_row_iterator :: "nat list \<Rightarrow> table_spec \<Rightarrow> error + (error + pyval) list"
  transform :: "pyval \<Rightarrow> pyval \<Rightarrow> pyval \<Rightarrow> error + pyval"
  to_map :: "pyval \<Rightarrow> pyval"
  now :: "nat \<Rightarrow> datetime"

text \<open>
  Modelled from the spec: \<open>s3.get_input_files_for_table\<close> and \<open>s3.get_file_handle\<close>
  (module \<open>tap_s3_csv.s3\<close>) are the storage discovery and the storage fetch of
  section 6. Discovery returns the eligible files in no guaranteed order. Fetch returns a
  stream positioned at the start of the file, which the caller is responsible for
  closing; the world records the stream as fetched.
\<close>

definition get_input_files_for_table ::
  "externals \<Rightarrow> config \<Rightarrow> table_spec \<Rightarrow> datetime \<Rightarrow> error + s3_file list" where
  "get_input_files_for_table ext config table_spec since =
     list_eligible_files ext config table_spec since"

definition get_file_handle ::
  "externals \<Rightarrow> config \<Rightarrow> str \<Rightarrow> world \<Rightarrow> (error + file_handle) \<times> world" where
  "get_file_handle ext config s3_path w =
     (case open_file ext config s3_path of
        Inl e \<Rightarrow> (Inl e, w)
      | Inr h \<Rightarrow> (Inr h, w\<lparr>open_streams := h # open_streams w\<rparr>))"

text \<open>
  Modelled from the spec: the bookmark store and the record sink of section 6 (the
  singer library). \<open>get_bookmark\<close> returns the value or nothing, \<open>write_bookmark\<close>
  returns the state with the one bookmark set, \<open>write_state\<close> and \<open>write_record\<close>
  emit a message, \<open>LOGGER.info\<close> a log line, \<open>utils.now\<close> reads the clock.
\<close>

definition get_bookmark :: "state \<Rightarrow> str \<Rightarrow> str \<Rightarrow> str option" where
  "get_bookmark state tap_stream_id k =
     (case state tap_stream_id of None \<Rightarrow> None | Some bookmarks \<Rightarrow> bookmarks k)"

definition write_bookmark :: "state \<Rightarrow> str \<Rightarrow> str \<Rightarrow> str \<Rightarrow> state" where
  "write_bookmark state tap_stream_id k val =
     state(tap_stream_id \<mapsto>
       (case state tap_stream_id of None \<Rightarrow> Map.empty | Some bookmarks \<Rightarrow> bookmarks)(k \<mapsto> val))"

definition write_state :: "state \<Rightarrow> world \<Rightarrow> world" where
  "write_state state w = w\<lparr>trace := trace w @ [StateMsg state]\<rparr>"

definition write_record :: "str \<Rightarrow> pyval \<Rightarrow> datetime \<Rightarrow> world \<Rightarrow> world" where
  "write_record tap_stream_id rec time_extracted w =
     w\<lparr>trace := trace w @ [RecordMsg tap_stream_id rec time_extracted]\<rparr>"

definition info :: "log_msg \<Rightarrow> world \<Rightarrow> world" where
  "info msg w = w\<lparr>trace := trace w @ [Info msg]\<rparr>"

definition utils_now :: "externals \<Rightarrow> world \<Rightarrow> datetime \<times> world" where
  "utils_now ext w = (now ext (ticks w), w\<lparr>ticks := Suc (ticks w)\<rparr>)"

definition maxsize :: int where
  "maxsize = 2 ^ 63 - 1"

section \<open>The File Sync Unit\<close>

text \<open>
  \<open>table_spec["table_name"] + config.get("table_suffix", "")\<close>, computed by both
  \<open>sync_stream\<close> (line 40) and \<open>sync_table_file\<close> (line 104).
\<close>

definition full_table_name :: "config \<Rightarrow> table_spec \<Rightarrow> str" where
  "full_table_name config table_spec =
     table_name table_spec @ (case table_suffix config of None \<Rightarrow> [] | Some s \<Rightarrow> s)"

text \<open>
  The loop of \<open>sync_table_file\<close> (lines 119 to 129) over the items the iterator still
  has to yield. An exception leaves the loop with what was emitted so far.
\<close>

fun sync_rows ::
  "externals \<Rightarrow> config \<Rightarrow> stream \<Rightarrow> str \<Rightarrow> (error + pyval) list \<Rightarrow> nat \<Rightarrow> world \<Rightarrow>
     (error + nat) \<times> world" where
  "sync_rows ext config stream tname [] records_synced w = (Inr records_synced, w)"
| "sync_rows ext config stream tname (item # iterator) records_synced w =
     (case item of
        Inl e \<Rightarrow> (Inl e, w)
      | Inr row \<Rightarrow>
          (case utils_now ext w of
             (time_extracted, w1) \<Rightarrow>
               (case (if set_empty_values_null_flag config = Some True
                      then set_empty_values_null row else Inr row) of
                  Inl e \<Rightarrow> (Inl e, w1)
                | Inr row' \<Rightarrow>
                    (case transform ext row' (schema stream) (to_map ext (metadata stream)) of
                       Inl e \<Rightarrow> (Inl e, w1)
                     | Inr to_write \<Rightarrow>
                         sync_rows ext config stream tname iterator (Suc records_synced)
                           (write_record tname to_write time_extracted w1)))))"

text \<open>\<open>sync_table_file\<close> (lines 92 to 131).\<close>

definition sync_table_file ::
  "externals \<Rightarrow> config \<Rightarrow> str \<Rightarrow> table_spec \<Rightarrow> stream \<Rightarrow> world \<Rightarrow> (error + nat) \<times> world" where
  "sync_table_file ext config s3_path table_spec stream w =
     (let w1 = info (SyncingFile s3_path) w in
      case bucket config of
        None \<Rightarrow> (Inl (KeyError ''bucket''), w1)
      | Some b \<Rightarrow>
          (case get_file_handle ext config s3_path w1 of
             (Inl e, w2) \<Rightarrow> (Inl e, w2)
           | (Inr s3_file_handle, w2) \<Rightarrow>
               (let w3 = w2\<lparr>csv_field_size_limit := maxsize\<rparr> in
                case get_row_iterator ext (raw_stream s3_file_handle) table_spec of
                  Inl e \<Rightarrow> (Inl e, w3)
                | Inr iterator \<Rightarrow>
                    sync_rows ext config stream (full_table_name config table_spec)
                      iterator 0 w3)))"

section \<open>The Stream Sync Orchestrator\<close>

text \<open>
  Line 41: \<open>get_bookmark(...) or config["start_date"]\<close>, then \<open>strptime_with_tz\<close>.
  Python's \<open>or\<close> takes its right operand when the left one is falsy: \<open>None\<close> (no
  bookmark) or the empty string. The right operand is evaluated only then.
\<close>

definition modified_since :: "externals \<Rightarrow> config \<Rightarrow> state \<Rightarrow> str \<Rightarrow> error + datetime" where
  "modified_since ext config state tname =
     (case (case get_bookmark state tname (u ''modified_since'') of
              None \<Rightarrow> (case start_date config of
                         None \<Rightarrow> Inl (KeyError ''start_date'') | Some d \<Rightarrow> Inr d)
            | Some b \<Rightarrow>
                if b \<noteq> [] then Inr b
                else (case start_date config of
                        None \<Rightarrow> Inl (KeyError ''start_date'') | Some d \<Rightarrow> Inr d)) of
        Inl e \<Rightarrow> Inl e
      | Inr s \<Rightarrow> strptime_with_tz ext s)"

text \<open>
  The loop of \<open>sync_stream\<close> (lines 54 to 63) over the sorted files still to sync.
  \<open>write_bookmark\<close> updates the caller's state object, so the state is returned on
  the failing path too.
\<close>

fun sync_files ::
  "externals \<Rightarrow> config \<Rightarrow> table_spec \<Rightarrow> stream \<Rightarrow> str \<Rightarrow> s3_file list \<Rightarrow> nat \<Rightarrow> state \<Rightarrow>
     world \<Rightarrow> (error + nat) \<times> state \<times> world" where
  "sync_files ext config table_spec stream tname [] records_streamed state w =
     (Inr records_streamed, state, w)"
| "sync_files ext config table_spec stream tname (s3_file # s3_files) records_streamed state w =
     (case sync_table_file ext config (key s3_file) table_spec stream w of
        (Inl e, w1) \<Rightarrow> (Inl e, state, w1)
      | (Inr n, w1) \<Rightarrow>
          (let state1 = write_bookmark state tname (u ''modified_since'')
                          (isoformat ext (last_modified s3_file))
           in sync_files ext config table_spec stream tname s3_files (records_streamed + n)
                state1 (write_state state1 w1)))"

text \<open>
  \<open>sync_stream\<close> (lines 31 to 67). \<open>sorted\<close> is a stable sort on the key
  \<open>item["last_modified"]\<close>, as \<open>sort_key\<close> is.
\<close>

definition sync_stream ::
  "externals \<Rightarrow> config \<Rightarrow> state \<Rightarrow> table_spec \<Rightarrow> stream \<Rightarrow> world \<Rightarrow>
     (error + nat) \<times> state \<times> world" where
  "sync_stream ext config state table_spec stream w =
     (let tname = full_table_name config table_spec in
      case modified_since ext config state tname of
        Inl e \<Rightarrow> (Inl e, state, w)
      | Inr since \<Rightarrow>
          (let w1 = info (GettingFiles since) (info (SyncingTable tname) w) in
           case get_input_files_for_table ext config table_spec since of
             Inl e \<Rightarrow> (Inl e, state, w1)
           | Inr s3_files \<Rightarrow>
               (case sync_files ext config table_spec stream tname
                       (sort_key (\<lambda>item. instant (last_modified item)) s3_files) 0 state w1 of
                  (Inl e, state', w2) \<Rightarrow> (Inl e, state', w2)
                | (Inr records_streamed, state', w2) \<Rightarrow>
                    (Inr records_streamed, state',
                     info (WroteRecords records_streamed tname) w2))))"

section \<open>Notions used to state the properties\<close>

text \<open>
  \<open>scrubbed v\<close> is \<open>v\<close> with every blank scalar replaced by \<open>None\<close> and nothing else
  changed. \<open>tuples_empty v\<close> holds when every tuple inside \<open>v\<close> is the empty tuple.
\<close>

fun scrubbed :: "pyval \<Rightarrow> pyval" where
  "scrubbed (Scalar s) = (if s = StrV [] \<or> isspace (py_str s) then Scalar NoneV else Scalar s)"
| "scrubbed (Dict kvs) = Dict (map (\<lambda>kv. (fst kv, scrubbed (snd kv))) kvs)"
| "scrubbed (List xs) = List (map scrubbed xs)"
| "scrubbed (Tuple xs) = Tuple (map scrubbed xs)"

fun tuples_empty :: "pyval \<Rightarrow> bool" where
  "tuples_empty (Scalar s) = True"
| "tuples_empty (Dict kvs) = list_all (\<lambda>kv. tuples_empty (snd kv)) kvs"
| "tuples_empty (List xs) = list_all tuples_empty xs"
| "tuples_empty (Tuple xs) = (xs = [])"

text \<open>
  Readings of a trace: the states written by \<open>write_state\<close>, the files the File Sync
  Unit was invoked on (it logs the path first thing), and both together in the order
  they happened.
\<close>

fun persisted :: "event list \<Rightarrow> state list" where
  "persisted [] = []"
| "persisted (StateMsg s # evs) = s # persisted evs"
| "persisted (_ # evs) = persisted evs"

fun invoked :: "event list \<Rightarrow> str list" where
  "invoked [] = []"
| "invoked (Info (SyncingFile p) # evs) = p # invoked evs"
| "invoked (_ # evs) = invoked evs"

fun marks :: "event list \<Rightarrow> (str + state) list" where
  "marks [] = []"
| "marks (Info (SyncingFile p) # evs) = Inl p # marks evs"
| "marks (StateMsg s # evs) = Inr s # marks evs"
| "marks (_ # evs) = marks evs"

text \<open>
  \<open>checkpoints ext tname state files\<close>: the states reached as the files complete one
  after the other, each with the bookmark of \<open>tname\<close> set to the ISO form of the file's
  modification time.
\<close>

fun checkpoints :: "externals \<Rightarrow> str \<Rightarrow> state \<Rightarrow> s3_file list \<Rightarrow> state list" where
  "checkpoints ext tname state [] = []"
| "checkpoints ext tname state (f # fs) =
     write_bookmark state tname (u ''modified_since'') (isoformat ext (last_modified f)) #
     checkpoints ext tname
       (write_bookmark state tname (u ''modified_since'') (isoformat ext (last_modified f))) fs"

text \<open>
  The starting watermark as the spec words it (section 4.3, step 2): the table's
  existing \<open>modified_since\<close> bookmark if present, else the config's start date, parsed.
\<close>

definition spec_starting_watermark ::
  "externals \<Rightarrow> config \<Rightarrow> state \<Rightarrow> str \<Rightarrow> error + datetime" where
  "spec_starting_watermark ext config state tname =
     (case get_bookmark state tname (u ''modified_since'') of
        Some b \<Rightarrow> strptime_with_tz ext b
      | None \<Rightarrow>
          (case start_date config of
             None \<Rightarrow> Inl (KeyError ''start_date'')
           | Some d \<Rightarrow> strptime_with_tz ext d))"

section \<open>Example inputs\<close>

definition jan01 :: datetime where
  "jan01 = \<lparr>instant = 1672531200000000, utcoffset = 0\<rparr>"

definition jan15 :: datetime where
  "jan15 = \<lparr>instant = 1673740800000000, utcoffset = 0\<rparr>"

definition feb01 :: datetime where
  "feb01 = \<lparr>instant = 1675209600000000, utcoffset = 0\<rparr>"

definition file_jan :: s3_file where
  "file_jan = \<lparr>key = u ''jan.csv'', last_modified = jan15\<rparr>"

definition file_feb :: s3_file where
  "file_feb = \<lparr>key = u ''feb.csv'', last_modified = feb01\<rparr>"

definition file_feb2 :: s3_file where
  "file_feb2 = \<lparr>key = u ''feb2.csv'', last_modified = feb01\<rparr>"

definition file_bad :: s3_file where
  "file_bad = \<lparr>key = u ''bad.csv'', last_modified = feb01\<rparr>"

definition ex_config :: config where
  "ex_config = \<lparr>bucket = Some (u ''bucket''), table_suffix = None,
                 start_date = Some (u ''2023-01-01T00:00:00Z''),
                 set_empty_values_null_flag = Some True\<rparr>"

definition ex_table_spec :: table_spec where
  "ex_table_spec = \<lparr>table_name = u ''orders''\<rparr>"

definition ex_stream :: stream where
  "ex_stream = \<lparr>schema = Dict [], metadata = List []\<rparr>"

definition ex_world :: world where
  "ex_world = \<lparr>trace = [], ticks = 0, open_streams = [], csv_field_size_limit = 131072\<rparr>"

definition ex_row :: pyval where
  "ex_row = Dict [(StrV (u ''name''), Scalar (StrV [])),
                  (StrV (u ''age''), Scalar (StrV (u ''5'')))]"

definition ex_row_null :: pyval where
  "ex_row_null = Dict [(StrV (u ''name''), Scalar NoneV),
                       (StrV (u ''age''), Scalar (StrV (u ''5'')))]"

text \<open>
  Collaborators for the examples: discovery returns \<open>files\<close>; \<open>jan.csv\<close> has two
  rows, \<open>bad.csv\<close> a good row and then one the transformer rejects, any other file
  three rows; the transformer accepts exactly the mappings and returns them as they are.
\<close>

definition ex_ext :: "s3_file list \<Rightarrow> externals" where
  "ex_ext files =
     \<lparr>strptime_with_tz =
        (\<lambda>s. if s = u ''2023-01-01T00:00:00Z'' then Inr jan01
             else if s = u ''2023-01-15T00:00:00+00:00'' then Inr jan15
             else Inl (CollaboratorError ''ParserError'')),
      isoformat =
        (\<lambda>d. if instant d = instant jan15 then u ''2023-01-15T00:00:00+00:00''
             else u ''2023-02-01T00:00:00+00:00''),
      list_eligible_files = (\<lambda>c t since. Inr files),
      open_file = (\<lambda>c k. Inr \<lparr>source_key = k, raw_stream = k\<rparr>),
      get_row_iterator =
        (\<lambda>raw t. Inr (if raw = u ''jan.csv'' then [Inr ex_row, Inr ex_row]
                       else if raw = u ''bad.csv'' then [Inr ex_row, Inr (Scalar (IntV 1))]
                       else [Inr ex_row, Inr ex_row, Inr ex_row])),
      transform =
        (\<lambda>row sch md. case row of Dict kvs \<Rightarrow> Inr row
                        | _ \<Rightarrow> Inl (CollaboratorError ''SchemaMismatch'')),
      to_map = (\<lambda>m. m),
      now = (\<lambda>n. \<lparr>instant = int n, utcoffset = 0\<rparr>)\<rparr>"

section \<open>Properties of the null normalizer\<close>

lemma digits_nonempty: "digits n \<noteq> []"
  by (subst digits.simps) simp

lemma digits_range: "c \<in> set (digits n) \<Longrightarrow> 48 \<le> c \<and> c \<le> 57"
proof (induction n arbitrary: c rule: digits.induct)
  case (1 n)
  show ?case
  proof (cases "n < 10")
    case True
    with "1.prems" show ?thesis by (subst (asm) digits.simps) simp
  next
    case False
    from "1.prems" have "c \<in> set (digits (n div 10)) \<or> c = 48 + n mod 10"
      using False by (subst (asm) digits.simps) auto
    then show ?thesis
    proof
      assume "c \<in> set (digits (n div 10))"
      with "1.IH" False show ?thesis by simp
    next
      assume c: "c = 48 + n mod 10"
      have "n mod 10 < 10" by simp
      with c show ?thesis by linarith
    qed
  qed
qed

lemma not_whitespace_digit: "48 \<le> c \<Longrightarrow> c \<le> 57 \<Longrightarrow> \<not> is_whitespace c"
  by (simp add: is_whitespace_def)

lemma isspace_Cons: "isspace (c # s) = (is_whitespace c \<and> list_all is_whitespace s)"
  by (simp add: isspace_def)

lemma not_isspace_digits: "\<not> isspace (digits n)"
proof -
  obtain c s where cs: "digits n = c # s"
    using digits_nonempty [of n] by (cases "digits n") auto
  then have "c \<in> set (digits n)" by simp
  then have "\<not> is_whitespace c"
    using digits_range not_whitespace_digit by blast
  with cs show ?thesis by (simp add: isspace_Cons)
qed

lemma not_isspace_str_int: "\<not> isspace (str_int i)"
  using not_isspace_digits by (simp add: str_int_def isspace_Cons is_whitespace_def)

lemma not_isspace_bool: "\<not> isspace (py_str (BoolV b))"
  by (simp add: u_def isspace_Cons is_whitespace_def)

lemma not_isspace_None: "\<not> isspace (py_str NoneV)"
  by (simp add: u_def isspace_Cons is_whitespace_def)

lemma set_empty_values_null_Scalar:
  "set_empty_values_null (Scalar s) = Inr (scrubbed (Scalar s))"
  by (cases s) (auto simp: deepcopy_def)


lemma dict_setitem_here:
  "k \<notin> fst ` set pre \<Longrightarrow> dict_setitem (pre @ (k, v) # items) k v' = pre @ (k, v') # items"
  by (induction pre) auto

lemma list_update_here: "(pre @ v # items)[length pre := v'] = pre @ v' # items"
  by (induction pre) auto


lemma normalizer_char:
  "wf_value v \<Longrightarrow>
     set_empty_values_null v = (if tuples_empty v then Inr (scrubbed v) else Inl TypeError)"
  "\<forall>pre. ret = pre @ items \<longrightarrow> distinct (map fst ret) \<longrightarrow>
       list_all (\<lambda>kv. wf_value (snd kv)) items \<longrightarrow>
     scrub_dict items ret =
       (if list_all (\<lambda>kv. tuples_empty (snd kv)) items
        then Inr (pre @ map (\<lambda>kv. (fst kv, scrubbed (snd kv))) items) else Inl TypeError)"
  "\<forall>pre. ret' = pre @ items' \<longrightarrow> i = length pre \<longrightarrow> list_all wf_value items' \<longrightarrow>
     scrub_seq is_tuple i items' ret' =
       (if is_tuple then (if items' = [] then Inr ret' else Inl TypeError)
        else if list_all tuples_empty items' then Inr (pre @ map scrubbed items')
        else Inl TypeError)"
proof (induction v and items ret and is_tuple i items' ret'
       rule: set_empty_values_null_scrub_dict_scrub_seq.induct)
  case (1 input_row)
  show ?case
  proof (cases input_row)
    case (Scalar s)
    then show ?thesis using set_empty_values_null_Scalar by simp
  next
    case (Dict kvs)
    with "1.prems" "1.IH"(1) [of kvs] show ?thesis
      by (simp add: deepcopy_def)
  next
    case (List xs)
    with "1.prems" "1.IH"(2) [of xs] show ?thesis
      by (simp add: deepcopy_def)
  next
    case (Tuple xs)
    with "1.prems" "1.IH"(3) [of xs] show ?thesis
      by (auto simp add: deepcopy_def)
  qed
next
  case (2 ret)
  show ?case by simp
next
  case (3 dict_key dict_value items ret)
  show ?case
  proof (intro allI impI)
    fix pre
    assume ret: "ret = pre @ (dict_key, dict_value) # items"
      and dist: "distinct (map fst ret)"
      and wf: "list_all (\<lambda>kv. wf_value (snd kv)) ((dict_key, dict_value) # items)"
    from wf have wfv: "wf_value dict_value" by simp
    note head = "3.IH"(1) [OF wfv]
    show "scrub_dict ((dict_key, dict_value) # items) ret =
       (if list_all (\<lambda>kv. tuples_empty (snd kv)) ((dict_key, dict_value) # items)
        then Inr (pre @ map (\<lambda>kv. (fst kv, scrubbed (snd kv))) ((dict_key, dict_value) # items))
        else Inl TypeError)"
    proof (cases "tuples_empty dict_value")
      case False
      with head show ?thesis by simp
    next
      case True
      with head have fv: "set_empty_values_null dict_value = Inr (scrubbed dict_value)" by simp
      from ret dist have notin: "dict_key \<notin> fst ` set pre" by auto
      have upd: "dict_setitem ret dict_key (scrubbed dict_value)
                 = (pre @ [(dict_key, scrubbed dict_value)]) @ items"
        using dict_setitem_here [OF notin] ret by simp
      have dist': "distinct (map fst (dict_setitem ret dict_key (scrubbed dict_value)))"
        using dist ret upd by simp
      from "3.IH"(2) [OF fv] upd dist' wf
      have "scrub_dict items (dict_setitem ret dict_key (scrubbed dict_value)) =
         (if list_all (\<lambda>kv. tuples_empty (snd kv)) items
          then Inr ((pre @ [(dict_key, scrubbed dict_value)]) @
                    map (\<lambda>kv. (fst kv, scrubbed (snd kv))) items)
          else Inl TypeError)"
        by simp
      with fv True show ?thesis by simp
    qed
  qed
next
  case (4 is_tuple dict_key ret)
  show ?case by simp
next
  case (5 is_tuple dict_key dict_value items ret)
  show ?case
  proof (intro allI impI)
    fix pre
    assume ret: "ret = pre @ dict_value # items"
      and len: "dict_key = length pre"
      and wf: "list_all wf_value (dict_value # items)"
    from wf have wfv: "wf_value dict_value" by simp
    note head = "5.IH"(1) [OF wfv]
    show "scrub_seq is_tuple dict_key (dict_value # items) ret =
       (if is_tuple then (if dict_value # items = [] then Inr ret else Inl TypeError)
        else if list_all tuples_empty (dict_value # items)
             then Inr (pre @ map scrubbed (dict_value # items))
             else Inl TypeError)"
    proof (cases "tuples_empty dict_value")
      case False
      with head show ?thesis by simp
    next
      case True
      with head have fv: "set_empty_values_null dict_value = Inr (scrubbed dict_value)" by simp
      show ?thesis
      proof (cases is_tuple)
        case True
        with fv show ?thesis by simp
      next
        case False
        have upd: "ret[dict_key := scrubbed dict_value] = (pre @ [scrubbed dict_value]) @ items"
          using list_update_here ret len by simp
        from "5.IH"(2) [OF fv False] upd len wf False
        have "scrub_seq is_tuple (Suc dict_key) items (ret[dict_key := scrubbed dict_value]) =
           (if list_all tuples_empty items
            then Inr ((pre @ [scrubbed dict_value]) @ map scrubbed items)
            else Inl TypeError)"
          by simp
        with fv True False show ?thesis by simp
      qed
    qed
  qed
qed


declare set_empty_values_null.simps [simp del]

lemma scrubbed_Scalar_idem: "scrubbed (scrubbed (Scalar s)) = scrubbed (Scalar s)"
  using not_isspace_None by simp

lemma scrubbed_idem: "scrubbed (scrubbed v) = scrubbed v"
proof (induction v rule: scrubbed.induct)
  case (1 s)
  show ?case by (rule scrubbed_Scalar_idem)
next
  case (2 kvs)
  then show ?case by (simp add: comp_def)
next
  case (3 xs)
  then show ?case by simp
next
  case (4 xs)
  then show ?case by simp
qed

lemma tuples_empty_scrubbed: "tuples_empty (scrubbed v) = tuples_empty v"
  by (induction v rule: scrubbed.induct) (simp_all add: list_all_iff)

lemma wf_value_scrubbed: "wf_value (scrubbed v) = wf_value v"
  by (induction v rule: scrubbed.induct) (simp_all add: list_all_iff comp_def)

lemma set_empty_values_null_wf:
  "wf_value v \<Longrightarrow>
     set_empty_values_null v = (if tuples_empty v then Inr (scrubbed v) else Inl TypeError)"
  by (rule normalizer_char(1))

text \<open>
  Claim C4. The normalizer is claimed to return, for every value built from mappings,
  ordered sequences (fixed-size tuples included) and scalars, a copy with the blank
  scalars replaced by null. On a tuple with at least one element the code raises
  instead: its loop assigns to \<open>ret[dict_key]\<close>, which a tuple does not support.
  The one-element tuple holding the empty string is such an input.
\<close>

theorem set_empty_values_null_tuple_raises:
  "set_empty_values_null (Tuple [Scalar (StrV [])]) = Inl TypeError"
  by (simp add: set_empty_values_null.simps deepcopy_def)

text \<open>
  Claim C5. The normalizer maps the empty string and a whitespace-only string to null,
  \<open>"a"\<close> to \<open>"a"\<close> and the integer \<open>0\<close> to \<open>0\<close>. On a scalar that is not a string
  it tests the string form for whitespace: an int, a bool and \<open>None\<close> never qualify and
  are returned as they are; any other object is replaced by null when its string form
  is all whitespace and kept otherwise, and is never replaced by its string form.
\<close>

theorem set_empty_values_null_scalars:
  "set_empty_values_null (Scalar (StrV [])) = Inr (Scalar NoneV) \<and>
   set_empty_values_null (Scalar (StrV (u ''   ''))) = Inr (Scalar NoneV) \<and>
   set_empty_values_null (Scalar (StrV (u ''a''))) = Inr (Scalar (StrV (u ''a''))) \<and>
   set_empty_values_null (Scalar (IntV 0)) = Inr (Scalar (IntV 0)) \<and>
   (\<forall>i. set_empty_values_null (Scalar (IntV i)) = Inr (Scalar (IntV i))) \<and>
   (\<forall>b. set_empty_values_null (Scalar (BoolV b)) = Inr (Scalar (BoolV b))) \<and>
   set_empty_values_null (Scalar NoneV) = Inr (Scalar NoneV) \<and>
   (\<forall>s. set_empty_values_null (Scalar (ObjV s)) =
          Inr (Scalar (if isspace (py_str (ObjV s)) then NoneV else ObjV s))) \<and>
   (\<forall>s. set_empty_values_null (Scalar (ObjV s)) \<noteq> Inr (Scalar (StrV (py_str (ObjV s)))))"
proof -
  have blank: "isspace (u ''   '')" and a: "\<not> isspace (u ''a'')" "u ''a'' \<noteq> []"
    by (simp_all add: u_def isspace_def is_whitespace_def)
  have int: "set_empty_values_null (Scalar (IntV i)) = Inr (Scalar (IntV i))" for i
    using not_isspace_str_int [of i] by (simp add: set_empty_values_null_Scalar)
  have bool: "set_empty_values_null (Scalar (BoolV b)) = Inr (Scalar (BoolV b))" for b
    using not_isspace_bool [of b] by (simp add: set_empty_values_null_Scalar)
  have none: "set_empty_values_null (Scalar NoneV) = Inr (Scalar NoneV)"
    by (simp add: set_empty_values_null_Scalar)
  have obj: "set_empty_values_null (Scalar (ObjV s)) =
          Inr (Scalar (if isspace (py_str (ObjV s)) then NoneV else ObjV s))" for s
    by (simp add: set_empty_values_null_Scalar)
  have obj': "set_empty_values_null (Scalar (ObjV s)) \<noteq> Inr (Scalar (StrV (py_str (ObjV s))))"
    for s
    by (simp add: set_empty_values_null_Scalar)
  show ?thesis
    using blank a int bool none obj obj' by (simp add: set_empty_values_null_Scalar)
qed

text \<open>
  Claim C6. The normalizer is idempotent: on every value (whose dicts have pairwise
  different keys, as every Python dict has), applying it to its own result gives that
  result again; where the first application raises, so does the composition.
\<close>

theorem set_empty_values_null_idempotent:
  "wf_value v \<Longrightarrow>
     (case set_empty_values_null v of Inl e \<Rightarrow> Inl e | Inr r \<Rightarrow> set_empty_values_null r)
       = set_empty_values_null v"
proof (cases "tuples_empty v")
  case False
  assume "wf_value v"
  with False show ?thesis by (simp add: set_empty_values_null_wf)
next
  case True
  assume wf: "wf_value v"
  with True have once: "set_empty_values_null v = Inr (scrubbed v)"
    by (simp add: set_empty_values_null_wf)
  have "wf_value (scrubbed v)" "tuples_empty (scrubbed v)"
    using wf True by (simp_all add: wf_value_scrubbed tuples_empty_scrubbed)
  then have "set_empty_values_null (scrubbed v) = Inr (scrubbed (scrubbed v))"
    by (simp add: set_empty_values_null_wf)
  with once show ?thesis by (simp add: scrubbed_idem)
qed

theorem set_empty_values_null_idempotent_witness:
  "wf_value (Dict [(StrV (u ''a''), Scalar (StrV [])),
                   (StrV (u ''b''), List [Scalar (StrV (u '' '')), Scalar (StrV (u ''x''))])]) \<and>
   (case set_empty_values_null
           (Dict [(StrV (u ''a''), Scalar (StrV [])),
                  (StrV (u ''b''), List [Scalar (StrV (u '' '')), Scalar (StrV (u ''x''))])]) of
      Inl e \<Rightarrow> Inl e | Inr r \<Rightarrow> set_empty_values_null r)
     = set_empty_values_null
         (Dict [(StrV (u ''a''), Scalar (StrV [])),
                (StrV (u ''b''), List [Scalar (StrV (u '' '')), Scalar (StrV (u ''x''))])])"
proof -
  have wf: "wf_value (Dict [(StrV (u ''a''), Scalar (StrV [])),
                   (StrV (u ''b''), List [Scalar (StrV (u '' '')), Scalar (StrV (u ''x''))])])"
    by (simp add: u_def)
  show ?thesis
    using wf set_empty_values_null_idempotent [OF wf] by simp
qed

section \<open>Properties of the File Sync Unit\<close>

lemma marks_append: "marks (xs @ ys) = marks xs @ marks ys"
  by (induction xs rule: marks.induct) simp_all

lemma persisted_append: "persisted (xs @ ys) = persisted xs @ persisted ys"
  by (induction xs rule: persisted.induct) simp_all

lemma invoked_append: "invoked (xs @ ys) = invoked xs @ invoked ys"
  by (induction xs rule: invoked.induct) simp_all

lemma sync_rows_fst_world:
  "fst (sync_rows ext config stream tname items n w) =
   fst (sync_rows ext config stream tname items n w0)"
proof (induction items arbitrary: n w w0)
  case Nil
  show ?case by simp
next
  case (Cons item items)
  show ?case
    by (auto simp: utils_now_def write_record_def split: sum.splits intro: Cons.IH)
qed

lemma sync_rows_world:
  "sync_rows ext config stream tname items n w = (r, w') \<Longrightarrow>
     marks (trace w') = marks (trace w) \<and> persisted (trace w') = persisted (trace w) \<and>
     invoked (trace w') = invoked (trace w) \<and> open_streams w' = open_streams w"
proof (induction items arbitrary: n w)
  case Nil
  then show ?case by auto
next
  case (Cons item items)
  show ?case
  proof (cases item)
    case (Inl e)
    with Cons.prems show ?thesis by auto
  next
    case (Inr row)
    let ?w1 = "w\<lparr>ticks := Suc (ticks w)\<rparr>"
    let ?row' = "if set_empty_values_null_flag config = Some True
                 then set_empty_values_null row else Inr row"
    show ?thesis
    proof (cases ?row')
      case (Inl e)
      with Cons.prems Inr show ?thesis by (auto simp: utils_now_def)
    next
      case row': (Inr row')
      show ?thesis
      proof (cases "transform ext row' (schema stream) (to_map ext (metadata stream))")
        case (Inl e)
        with Cons.prems Inr row' show ?thesis by (auto simp: utils_now_def)
      next
        case tr: (Inr to_write)
        let ?w2 = "write_record tname to_write (now ext (ticks w)) ?w1"
        from Cons.prems Inr row' tr
        have "sync_rows ext config stream tname items (Suc n) ?w2 = (r, w')"
          by (simp add: utils_now_def)
        from Cons.IH [OF this] show ?thesis
          by (simp add: write_record_def marks_append persisted_append invoked_append)
      qed
    qed
  qed
qed


lemma sync_table_file_fst_world:
  "fst (sync_table_file ext config s3_path table_spec stream w) =
   fst (sync_table_file ext config s3_path table_spec stream w0)"
  by (auto simp: sync_table_file_def get_file_handle_def Let_def
           split: option.splits sum.splits intro: sync_rows_fst_world)

lemma sync_table_file_world:
  assumes "sync_table_file ext config s3_path table_spec stream w = (r, w')"
  shows "marks (trace w') = marks (trace w) @ [Inl s3_path] \<and>
         persisted (trace w') = persisted (trace w) \<and>
         invoked (trace w') = invoked (trace w) @ [s3_path]"
proof (cases "bucket config")
  case None
  with assms show ?thesis
    by (auto simp: sync_table_file_def info_def marks_append persisted_append invoked_append Let_def)
next
  case (Some b)
  let ?w1 = "info (SyncingFile s3_path) w"
  have w1: "marks (trace ?w1) = marks (trace w) @ [Inl s3_path]"
    "persisted (trace ?w1) = persisted (trace w)"
    "invoked (trace ?w1) = invoked (trace w) @ [s3_path]"
    by (simp_all add: info_def marks_append persisted_append invoked_append)
  show ?thesis
  proof (cases "open_file ext config s3_path")
    case (Inl e)
    with assms Some w1 show ?thesis
      by (auto simp: sync_table_file_def get_file_handle_def Let_def)
  next
    case (Inr h)
    let ?w3 = "?w1\<lparr>open_streams := h # open_streams ?w1, csv_field_size_limit := maxsize\<rparr>"
    show ?thesis
    proof (cases "get_row_iterator ext (raw_stream h) table_spec")
      case (Inl e)
      with assms Some Inr w1 show ?thesis
        by (auto simp: sync_table_file_def get_file_handle_def Let_def)
    next
      case it: (Inr iterator)
      from assms Some Inr it
      have "sync_rows ext config stream (full_table_name config table_spec) iterator 0 ?w3
            = (r, w')"
        by (simp add: sync_table_file_def get_file_handle_def Let_def)
      from sync_rows_world [OF this] w1 show ?thesis by simp
    qed
  qed
qed

lemma sync_rows_all_pass:
  assumes "(if set_empty_values_null_flag config = Some True
            then map set_empty_values_null rows = map Inr rows' else rows' = rows)"
    and "map (\<lambda>row. transform ext row (schema stream) (to_map ext (metadata stream))) rows'
         = map Inr recs"
  shows "sync_rows ext config stream tname (map Inr rows) n w =
           (Inr (n + length rows),
            w\<lparr>trace := trace w @
                 map (\<lambda>(t, to_write). RecordMsg tname to_write (now ext t))
                     (enumerate (ticks w) recs),
              ticks := ticks w + length rows\<rparr>)"
  using assms
proof (induction rows arbitrary: rows' recs n w)
  case Nil
  then show ?case by (auto split: if_splits)
next
  case (Cons row rows)
  from Cons.prems(1) obtain row' rest' where rows': "rows' = row' # rest'"
    and head: "(if set_empty_values_null_flag config = Some True
                then set_empty_values_null row else Inr row) = Inr row'"
    and tail: "(if set_empty_values_null_flag config = Some True
                then map set_empty_values_null rows = map Inr rest' else rest' = rows)"
    by (cases rows') (auto split: if_splits)
  from Cons.prems(2) rows' obtain to_write rest where recs: "recs = to_write # rest"
    and tr: "transform ext row' (schema stream) (to_map ext (metadata stream)) = Inr to_write"
    and trs: "map (\<lambda>row. transform ext row (schema stream) (to_map ext (metadata stream))) rest'
              = map Inr rest"
    by (cases recs) auto
  let ?w2 = "write_record tname to_write (now ext (ticks w)) (w\<lparr>ticks := Suc (ticks w)\<rparr>)"
  have step: "sync_rows ext config stream tname (map Inr (row # rows)) n w =
              sync_rows ext config stream tname (map Inr rows) (Suc n) ?w2"
    using head tr by (simp add: utils_now_def)
  show ?case
    unfolding step Cons.IH [OF tail trs] recs
    by (simp add: write_record_def enumerate_simps)
qed

section \<open>Properties of the Stream Sync Orchestrator\<close>

lemma sync_files_run:
  "sync_files ext config ts strm tname gs acc st w = (r, st', w') \<Longrightarrow>
   \<exists>n. n \<le> length gs \<and>
       st' = last (st # checkpoints ext tname st (take n gs)) \<and>
       marks (trace w') = marks (trace w) @
          concat (map (\<lambda>(g, s). [Inl (key g), Inr s])
                      (zip (take n gs) (checkpoints ext tname st (take n gs)))) @
          (case r of Inl e \<Rightarrow> [Inl (key (gs ! n))] | Inr cnt \<Rightarrow> []) \<and>
       (\<forall>i<n. \<exists>k. fst (sync_table_file ext config (key (gs ! i)) ts strm w0) = Inr k) \<and>
       (case r of
          Inl e \<Rightarrow> n < length gs \<and>
                   fst (sync_table_file ext config (key (gs ! n)) ts strm w0) = Inl e
        | Inr cnt \<Rightarrow> n = length gs)"
proof (induction gs arbitrary: acc st w)
  case Nil
  then show ?case by auto
next
  case (Cons g gs)
  obtain r1 w1 where f: "sync_table_file ext config (key g) ts strm w = (r1, w1)"
    by (cases "sync_table_file ext config (key g) ts strm w") auto
  note fw = sync_table_file_world [OF f]
  have f0: "fst (sync_table_file ext config (key g) ts strm w0) = r1"
    using sync_table_file_fst_world [of ext config "key g" ts strm w0 w] f by simp
  show ?case
  proof (cases r1)
    case (Inl e)
    with Cons.prems f have res: "r = Inl e" "st' = st" "w' = w1" by auto
    have "0 \<le> length (g # gs) \<and>
       st' = last (st # checkpoints ext tname st (take 0 (g # gs))) \<and>
       marks (trace w') = marks (trace w) @
          concat (map (\<lambda>(g, s). [Inl (key g), Inr s])
                      (zip (take 0 (g # gs)) (checkpoints ext tname st (take 0 (g # gs))))) @
          (case r of Inl e \<Rightarrow> [Inl (key ((g # gs) ! 0))] | Inr cnt \<Rightarrow> []) \<and>
       (\<forall>i<0. \<exists>k. fst (sync_table_file ext config (key ((g # gs) ! i)) ts strm w0) = Inr k) \<and>
       (case r of
          Inl e \<Rightarrow> 0 < length (g # gs) \<and>
                   fst (sync_table_file ext config (key ((g # gs) ! 0)) ts strm w0) = Inl e
        | Inr cnt \<Rightarrow> 0 = length (g # gs))"
      using res fw f0 Inl by simp
    then show ?thesis by blast
  next
    case (Inr k)
    let ?st1 = "write_bookmark st tname (u ''modified_since'') (isoformat ext (last_modified g))"
    let ?w2 = "write_state ?st1 w1"
    from Cons.prems f Inr
    have rest: "sync_files ext config ts strm tname gs (acc + k) ?st1 ?w2 = (r, st', w')"
      by (simp add: Let_def)
    from Cons.IH [OF rest] obtain n where n: "n \<le> length gs"
      and st': "st' = last (?st1 # checkpoints ext tname ?st1 (take n gs))"
      and mk: "marks (trace w') = marks (trace ?w2) @
          concat (map (\<lambda>(g, s). [Inl (key g), Inr s])
                      (zip (take n gs) (checkpoints ext tname ?st1 (take n gs)))) @
          (case r of Inl e \<Rightarrow> [Inl (key (gs ! n))] | Inr cnt \<Rightarrow> [])"
      and ok: "\<forall>i<n. \<exists>k. fst (sync_table_file ext config (key (gs ! i)) ts strm w0) = Inr k"
      and fin: "(case r of
          Inl e \<Rightarrow> n < length gs \<and>
                   fst (sync_table_file ext config (key (gs ! n)) ts strm w0) = Inl e
        | Inr cnt \<Rightarrow> n = length gs)"
      by blast
    have w2: "marks (trace ?w2) = marks (trace w) @ [Inl (key g), Inr ?st1]"
      using fw by (simp add: write_state_def marks_append)
    have ok': "\<forall>i<Suc n. \<exists>k. fst (sync_table_file ext config (key ((g # gs) ! i)) ts strm w0) = Inr k"
    proof (intro allI impI)
      fix i assume "i < Suc n"
      then show "\<exists>k. fst (sync_table_file ext config (key ((g # gs) ! i)) ts strm w0) = Inr k"
        using ok f0 Inr by (cases i) auto
    qed
    have "Suc n \<le> length (g # gs) \<and>
       st' = last (st # checkpoints ext tname st (take (Suc n) (g # gs))) \<and>
       marks (trace w') = marks (trace w) @
          concat (map (\<lambda>(g, s). [Inl (key g), Inr s])
                      (zip (take (Suc n) (g # gs))
                           (checkpoints ext tname st (take (Suc n) (g # gs))))) @
          (case r of Inl e \<Rightarrow> [Inl (key ((g # gs) ! Suc n))] | Inr cnt \<Rightarrow> []) \<and>
       (\<forall>i<Suc n. \<exists>k. fst (sync_table_file ext config (key ((g # gs) ! i)) ts strm w0) = Inr k) \<and>
       (case r of
          Inl e \<Rightarrow> Suc n < length (g # gs) \<and>
                   fst (sync_table_file ext config (key ((g # gs) ! Suc n)) ts strm w0) = Inl e
        | Inr cnt \<Rightarrow> Suc n = length (g # gs))"
      using n st' mk w2 ok' fin by (simp split: sum.splits)
    then show ?thesis by blast
  qed
qed


lemma length_checkpoints: "length (checkpoints ext tname st gs) = length gs"
  by (induction gs arbitrary: st) simp_all

lemma get_bookmark_write_same:
  "get_bookmark (write_bookmark st t k v) t k = Some v"
  by (simp add: get_bookmark_def write_bookmark_def)

lemma get_bookmark_write_other:
  "(t', k') \<noteq> (t, k) \<Longrightarrow>
     get_bookmark (write_bookmark st t k v) t' k' = get_bookmark st t' k'"
  by (auto simp: get_bookmark_def write_bookmark_def split: option.splits)

lemma checkpoints_nth_same:
  "i < length gs \<Longrightarrow>
     get_bookmark (checkpoints ext tname st gs ! i) tname (u ''modified_since'')
       = Some (isoformat ext (last_modified (gs ! i)))"
proof (induction gs arbitrary: st i)
  case Nil
  then show ?case by simp
next
  case (Cons g gs)
  then show ?case by (cases i) (simp_all add: get_bookmark_write_same)
qed

lemma checkpoints_nth_other:
  "i < length gs \<Longrightarrow> (t, k) \<noteq> (tname, u ''modified_since'') \<Longrightarrow>
     get_bookmark (checkpoints ext tname st gs ! i) t k = get_bookmark st t k"
proof (induction gs arbitrary: st i)
  case Nil
  then show ?case by simp
next
  case (Cons g gs)
  show ?case
  proof (cases i)
    case 0
    with Cons.prems show ?thesis by (simp add: get_bookmark_write_other)
  next
    case (Suc j)
    with Cons.prems Cons.IH [of j] show ?thesis by (simp add: get_bookmark_write_other)
  qed
qed

lemma last_checkpoints_foldl:
  "last (st # checkpoints ext tname st gs) =
     foldl (\<lambda>s g. write_bookmark s tname (u ''modified_since'')
                     (isoformat ext (last_modified g))) st gs"
  by (induction gs arbitrary: st) simp_all

lemma invoked_marks:
  "invoked evs = concat (map (case_sum (\<lambda>p. [p]) (\<lambda>s. [])) (marks evs))"
  by (induction evs rule: marks.induct) simp_all

lemma persisted_marks:
  "persisted evs = concat (map (case_sum (\<lambda>p. []) (\<lambda>s. [s])) (marks evs))"
  by (induction evs rule: marks.induct) simp_all

lemma lefts_blocks:
  "length ss = length gs \<Longrightarrow>
     concat (map (case_sum (\<lambda>p. [p]) (\<lambda>s. []))
       (concat (map (\<lambda>(g, s). [Inl (key g), Inr s]) (zip gs ss)))) = map key gs"
  by (induction gs ss rule: list_induct2') simp_all

lemma rights_blocks:
  "length ss = length gs \<Longrightarrow>
     concat (map (case_sum (\<lambda>p. []) (\<lambda>s. [s]))
       (concat (map (\<lambda>(g, s). [Inl (key g :: str), Inr s]) (zip gs ss)))) = ss"
  by (induction gs ss rule: list_induct2') simp_all

section \<open>Claims on the File Sync Unit\<close>

lemma ex_row_normalized: "set_empty_values_null ex_row = Inr ex_row_null"
  by (simp add: set_empty_values_null_wf ex_row_def ex_row_null_def u_def isspace_def
                is_whitespace_def)

text \<open>
  Claim C7. When the bucket option is there, the file opens, the iterator yields rows
  only and every row passes the transformer, the File Sync Unit returns the number of
  rows the iterator yielded and emits one record per row, in order. The transformer
  receives the normalized row when the config flag is set and the row itself
  otherwise; the emitted record is what the transformer returned for it. In the example
  the blank \<open>name\<close> field reaches the transformer, and the sink, as null.
\<close>

theorem sync_table_file_all_pass:
  assumes "bucket config = Some b"
    and "open_file ext config s3_path = Inr h"
    and "get_row_iterator ext (raw_stream h) table_spec = Inr (map Inr rows)"
    and "(if set_empty_values_null_flag config = Some True
          then map set_empty_values_null rows = map Inr rows' else rows' = rows)"
    and "map (\<lambda>row. transform ext row (schema stream) (to_map ext (metadata stream))) rows'
         = map Inr recs"
  shows "sync_table_file ext config s3_path table_spec stream w =
           (Inr (length rows),
            w\<lparr>trace := trace w @ Info (SyncingFile s3_path) #
                 map (\<lambda>(t, to_write).
                        RecordMsg (full_table_name config table_spec) to_write (now ext t))
                     (enumerate (ticks w) recs),
              ticks := ticks w + length rows,
              open_streams := h # open_streams w,
              csv_field_size_limit := maxsize\<rparr>) \<and>
         length recs = length rows"
proof -
  have len: "length recs = length rows"
    using assms(4,5) by (metis length_map)
  let ?w3 = "(info (SyncingFile s3_path) w)
               \<lparr>open_streams := h # open_streams (info (SyncingFile s3_path) w),
                csv_field_size_limit := maxsize\<rparr>"
  have "sync_table_file ext config s3_path table_spec stream w =
        sync_rows ext config stream (full_table_name config table_spec) (map Inr rows) 0 ?w3"
    using assms(1-3) by (simp add: sync_table_file_def get_file_handle_def Let_def)
  also have "\<dots> = (Inr (0 + length rows),
            ?w3\<lparr>trace := trace ?w3 @
                 map (\<lambda>(t, to_write).
                        RecordMsg (full_table_name config table_spec) to_write (now ext t))
                     (enumerate (ticks ?w3) recs),
              ticks := ticks ?w3 + length rows\<rparr>)"
    by (rule sync_rows_all_pass [OF assms(4,5)])
  finally show ?thesis using len by (simp add: info_def)
qed

theorem sync_table_file_all_pass_witness:
  "bucket ex_config = Some (u ''bucket'') \<and>
   open_file (ex_ext []) ex_config (u ''jan.csv'')
     = Inr \<lparr>source_key = u ''jan.csv'', raw_stream = u ''jan.csv''\<rparr> \<and>
   get_row_iterator (ex_ext []) (u ''jan.csv'') ex_table_spec = Inr (map Inr [ex_row, ex_row]) \<and>
   set_empty_values_null_flag ex_config = Some True \<and>
   map set_empty_values_null [ex_row, ex_row] = map Inr [ex_row_null, ex_row_null] \<and>
   sync_table_file (ex_ext []) ex_config (u ''jan.csv'') ex_table_spec ex_stream ex_world =
     (Inr 2,
      \<lparr>trace = [Info (SyncingFile (u ''jan.csv'')),
                RecordMsg (u ''orders'') ex_row_null \<lparr>instant = 0, utcoffset = 0\<rparr>,
                RecordMsg (u ''orders'') ex_row_null \<lparr>instant = 1, utcoffset = 0\<rparr>],
       ticks = 2,
       open_streams = [\<lparr>source_key = u ''jan.csv'', raw_stream = u ''jan.csv''\<rparr>],
       csv_field_size_limit = maxsize\<rparr>)"
proof -
  have b: "bucket ex_config = Some (u ''bucket'')" by (simp add: ex_config_def)
  have h: "open_file (ex_ext []) ex_config (u ''jan.csv'')
     = Inr \<lparr>source_key = u ''jan.csv'', raw_stream = u ''jan.csv''\<rparr>"
    by (simp add: ex_ext_def)
  have it: "get_row_iterator (ex_ext [])
              (raw_stream \<lparr>source_key = u ''jan.csv'', raw_stream = u ''jan.csv''\<rparr>)
              ex_table_spec = Inr (map Inr [ex_row, ex_row])"
    by (simp add: ex_ext_def)
  have flag: "set_empty_values_null_flag ex_config = Some True" by (simp add: ex_config_def)
  have norm: "map set_empty_values_null [ex_row, ex_row] = map Inr [ex_row_null, ex_row_null]"
    by (simp add: ex_row_normalized)
  have prep: "(if set_empty_values_null_flag ex_config = Some True
          then map set_empty_values_null [ex_row, ex_row] = map Inr [ex_row_null, ex_row_null]
          else [ex_row_null, ex_row_null] = [ex_row, ex_row])"
    using flag norm by simp
  have tr: "map (\<lambda>row. transform (ex_ext []) row (schema ex_stream)
                        (to_map (ex_ext []) (metadata ex_stream))) [ex_row_null, ex_row_null]
            = map Inr [ex_row_null, ex_row_null]"
    by (simp add: ex_ext_def ex_row_null_def)
  show ?thesis
    using sync_table_file_all_pass [OF b h it prep tr, of ex_world] b h it flag norm
    by (simp add: ex_world_def full_table_name_def ex_config_def ex_table_spec_def
                  ex_ext_def enumerate_simps)
qed

section \<open>Claims on the Stream Sync Orchestrator\<close>

text \<open>
  Claim C10. When discovery returns no file, the orchestrator returns 0, the state is
  the one it was given, and the run only logs: no \<open>STATE\<close> message is written.
\<close>

theorem sync_stream_no_files:
  assumes "modified_since ext config state (full_table_name config table_spec) = Inr since"
    and "get_input_files_for_table ext config table_spec since = Inr []"
  shows "sync_stream ext config state table_spec stream w =
           (Inr 0, state,
            w\<lparr>trace := trace w @
                 [Info (SyncingTable (full_table_name config table_spec)),
                  Info (GettingFiles since),
                  Info (WroteRecords 0 (full_table_name config table_spec))]\<rparr>) \<and>
         persisted (trace (snd (snd (sync_stream ext config state table_spec stream w))))
           = persisted (trace w)"
  using assms by (simp add: sync_stream_def Let_def info_def persisted_append)

theorem sync_stream_no_files_witness:
  "modified_since (ex_ext []) ex_config Map.empty (full_table_name ex_config ex_table_spec)
     = Inr jan01 \<and>
   get_input_files_for_table (ex_ext []) ex_config ex_table_spec jan01 = Inr [] \<and>
   sync_stream (ex_ext []) ex_config Map.empty ex_table_spec ex_stream ex_world =
     (Inr 0, Map.empty,
      ex_world\<lparr>trace := trace ex_world @
          [Info (SyncingTable (full_table_name ex_config ex_table_spec)),
           Info (GettingFiles jan01),
           Info (WroteRecords 0 (full_table_name ex_config ex_table_spec))]\<rparr>) \<and>
   persisted (trace (snd (snd (sync_stream (ex_ext []) ex_config Map.empty ex_table_spec
                                  ex_stream ex_world))))
     = persisted (trace ex_world)"
proof -
  have since: "modified_since (ex_ext []) ex_config Map.empty
                 (full_table_name ex_config ex_table_spec) = Inr jan01"
    by (simp add: modified_since_def get_bookmark_def ex_config_def ex_ext_def)
  have disc: "get_input_files_for_table (ex_ext []) ex_config ex_table_spec jan01 = Inr []"
    by (simp add: get_input_files_for_table_def ex_ext_def)
  show ?thesis
    using sync_stream_no_files [OF since disc, of ex_stream ex_world] since disc
    by (simp add: persisted_append)
qed

text \<open>
  Claim C8. A bookmark is an ISO-8601 timestamp, so it is never the empty string
  (\<open>sync_stream\<close>, the only writer, stores \<open>isoformat()\<close>). On every such state the
  watermark of line 41 is the one the spec words: the table's \<open>modified_since\<close>
  bookmark when one is present in the state, and otherwise the config's start date (a
  lookup failure when that is missing), parsed by \<open>strptime_with_tz\<close>. A failure to
  resolve the watermark ends the run before anything is logged; a resolved watermark
  is the one that is logged and the one discovery is asked with, and the run is what
  the file loop makes of discovery's answer for it.
\<close>

theorem modified_since_resolution:
  assumes "get_bookmark state (full_table_name config table_spec) (u ''modified_since'')
             \<noteq> Some []"
  shows "modified_since ext config state (full_table_name config table_spec)
           = spec_starting_watermark ext config state (full_table_name config table_spec) \<and>
   (\<forall>b. get_bookmark state (full_table_name config table_spec) (u ''modified_since'') = Some b
          \<longrightarrow> modified_since ext config state (full_table_name config table_spec)
                = strptime_with_tz ext b) \<and>
   (get_bookmark state (full_table_name config table_spec) (u ''modified_since'') = None
      \<longrightarrow> modified_since ext config state (full_table_name config table_spec)
            = (case start_date config of
                 None \<Rightarrow> Inl (KeyError ''start_date'')
               | Some d \<Rightarrow> strptime_with_tz ext d)) \<and>
   (\<forall>e. modified_since ext config state (full_table_name config table_spec) = Inl e \<longrightarrow>
        sync_stream ext config state table_spec stream w = (Inl e, state, w)) \<and>
   (\<forall>since. modified_since ext config state (full_table_name config table_spec) = Inr since \<longrightarrow>
        sync_stream ext config state table_spec stream w =
          (case get_input_files_for_table ext config table_spec since of
             Inl e \<Rightarrow>
               (Inl e, state,
                info (GettingFiles since)
                  (info (SyncingTable (full_table_name config table_spec)) w))
           | Inr s3_files \<Rightarrow>
               (case sync_files ext config table_spec stream (full_table_name config table_spec)
                       (sort_key (\<lambda>item. instant (last_modified item)) s3_files) 0 state
                       (info (GettingFiles since)
                          (info (SyncingTable (full_table_name config table_spec)) w)) of
                  (Inl e, state', w2) \<Rightarrow> (Inl e, state', w2)
                | (Inr records_streamed, state', w2) \<Rightarrow>
                    (Inr records_streamed, state',
                     info (WroteRecords records_streamed
                             (full_table_name config table_spec)) w2))))"
proof (intro conjI allI impI)
  show "modified_since ext config state (full_table_name config table_spec)
           = spec_starting_watermark ext config state (full_table_name config table_spec)"
    using assms by (auto simp: modified_since_def spec_starting_watermark_def
                         split: option.splits)
next
  fix b
  assume "get_bookmark state (full_table_name config table_spec) (u ''modified_since'') = Some b"
  with assms show "modified_since ext config state (full_table_name config table_spec)
                = strptime_with_tz ext b"
    by (auto simp: modified_since_def)
next
  assume "get_bookmark state (full_table_name config table_spec) (u ''modified_since'') = None"
  then show "modified_since ext config state (full_table_name config table_spec)
            = (case start_date config of
                 None \<Rightarrow> Inl (KeyError ''start_date'')
               | Some d \<Rightarrow> strptime_with_tz ext d)"
    by (auto simp: modified_since_def split: option.splits)
next
  fix e
  assume "modified_since ext config state (full_table_name config table_spec) = Inl e"
  then show "sync_stream ext config state table_spec stream w = (Inl e, state, w)"
    by (simp add: sync_stream_def)
next
  fix since
  assume "modified_since ext config state (full_table_name config table_spec) = Inr since"
  then show "sync_stream ext config state table_spec stream w =
          (case get_input_files_for_table ext config table_spec since of
             Inl e \<Rightarrow>
               (Inl e, state,
                info (GettingFiles since)
                  (info (SyncingTable (full_table_name config table_spec)) w))
           | Inr s3_files \<Rightarrow>
               (case sync_files ext config table_spec stream (full_table_name config table_spec)
                       (sort_key (\<lambda>item. instant (last_modified item)) s3_files) 0 state
                       (info (GettingFiles since)
                          (info (SyncingTable (full_table_name config table_spec)) w)) of
                  (Inl e, state', w2) \<Rightarrow> (Inl e, state', w2)
                | (Inr records_streamed, state', w2) \<Rightarrow>
                    (Inr records_streamed, state',
                     info (WroteRecords records_streamed
                             (full_table_name config table_spec)) w2)))"
    by (simp add: sync_stream_def Let_def)
qed

theorem modified_since_resolution_witness:
  "get_bookmark [u ''orders'' \<mapsto> [u ''modified_since'' \<mapsto> u ''2023-01-15T00:00:00+00:00'']]
     (full_table_name ex_config ex_table_spec) (u ''modified_since'') \<noteq> Some [] \<and>
   start_date ex_config = Some (u ''2023-01-01T00:00:00Z'') \<and>
   modified_since
     ((ex_ext [])\<lparr>list_eligible_files :=
        (\<lambda>c t since. if since = jan15 then Inr []
                      else Inl (CollaboratorError ''OtherWatermark''))\<rparr>)
     ex_config
     [u ''orders'' \<mapsto> [u ''modified_since'' \<mapsto> u ''2023-01-15T00:00:00+00:00'']]
     (full_table_name ex_config ex_table_spec) = Inr jan15 \<and>
   fst (sync_stream
     ((ex_ext [])\<lparr>list_eligible_files :=
        (\<lambda>c t since. if since = jan15 then Inr []
                      else Inl (CollaboratorError ''OtherWatermark''))\<rparr>)
     ex_config
     [u ''orders'' \<mapsto> [u ''modified_since'' \<mapsto> u ''2023-01-15T00:00:00+00:00'']]
     ex_table_spec ex_stream ex_world) = Inr 0 \<and>
   get_bookmark Map.empty (full_table_name ex_config ex_table_spec) (u ''modified_since'')
     \<noteq> Some [] \<and>
   modified_since
     ((ex_ext [])\<lparr>list_eligible_files :=
        (\<lambda>c t since. if since = jan15 then Inr []
                      else Inl (CollaboratorError ''OtherWatermark''))\<rparr>)
     ex_config Map.empty (full_table_name ex_config ex_table_spec) = Inr jan01 \<and>
   fst (sync_stream
     ((ex_ext [])\<lparr>list_eligible_files :=
        (\<lambda>c t since. if since = jan15 then Inr []
                      else Inl (CollaboratorError ''OtherWatermark''))\<rparr>)
     ex_config Map.empty ex_table_spec ex_stream ex_world)
     = Inl (CollaboratorError ''OtherWatermark'')"
proof -
  let ?st = "[u ''orders'' \<mapsto> [u ''modified_since'' \<mapsto> u ''2023-01-15T00:00:00+00:00'']]"
  let ?ext = "(ex_ext [])\<lparr>list_eligible_files :=
        (\<lambda>c t since. if since = jan15 then Inr []
                      else Inl (CollaboratorError ''OtherWatermark''))\<rparr>"
  let ?tn = "full_table_name ex_config ex_table_spec"
  have tn: "?tn = u ''orders''"
    by (simp add: full_table_name_def ex_config_def ex_table_spec_def)
  have bm: "get_bookmark ?st ?tn (u ''modified_since'') = Some (u ''2023-01-15T00:00:00+00:00'')"
    by (simp add: tn get_bookmark_def)
  have ne: "u ''2023-01-15T00:00:00+00:00'' \<noteq> []" by (simp add: u_def)
  from bm ne have h1: "get_bookmark ?st ?tn (u ''modified_since'') \<noteq> Some []" by simp
  have none: "get_bookmark Map.empty ?tn (u ''modified_since'') = None"
    by (simp add: get_bookmark_def)
  then have h2: "get_bookmark Map.empty ?tn (u ''modified_since'') \<noteq> Some []" by simp
  have sd: "start_date ex_config = Some (u ''2023-01-01T00:00:00Z'')"
    by (simp add: ex_config_def)
  have parse: "strptime_with_tz ?ext (u ''2023-01-15T00:00:00+00:00'') = Inr jan15"
    by (simp add: ex_ext_def u_def)
  have parse0: "strptime_with_tz ?ext (u ''2023-01-01T00:00:00Z'') = Inr jan01"
    by (simp add: ex_ext_def)
  have d1: "get_input_files_for_table ?ext ex_config ex_table_spec jan15 = Inr []"
    by (simp add: get_input_files_for_table_def ex_ext_def)
  have d0: "get_input_files_for_table ?ext ex_config ex_table_spec jan01
              = Inl (CollaboratorError ''OtherWatermark'')"
    by (simp add: get_input_files_for_table_def ex_ext_def jan01_def jan15_def)
  note a = modified_since_resolution [OF h1, where ext = ?ext and stream = ex_stream
      and w = ex_world]
  note b = modified_since_resolution [OF h2, where ext = ?ext and stream = ex_stream
      and w = ex_world]
  from a have "\<forall>b. get_bookmark ?st ?tn (u ''modified_since'') = Some b
          \<longrightarrow> modified_since ?ext ex_config ?st ?tn = strptime_with_tz ?ext b"
    by blast
  with bm have "modified_since ?ext ex_config ?st ?tn
                  = strptime_with_tz ?ext (u ''2023-01-15T00:00:00+00:00'')"
    by blast
  then have m1: "modified_since ?ext ex_config ?st ?tn = Inr jan15"
    by (simp only: parse)
  from b have "get_bookmark Map.empty ?tn (u ''modified_since'') = None
      \<longrightarrow> modified_since ?ext ex_config Map.empty ?tn
            = (case start_date ex_config of
                 None \<Rightarrow> Inl (KeyError ''start_date'')
               | Some d \<Rightarrow> strptime_with_tz ?ext d)"
    by blast
  with none have "modified_since ?ext ex_config Map.empty ?tn
            = (case start_date ex_config of
                 None \<Rightarrow> Inl (KeyError ''start_date'')
               | Some d \<Rightarrow> strptime_with_tz ?ext d)"
    by blast
  then have m2: "modified_since ?ext ex_config Map.empty ?tn = Inr jan01"
    by (simp only: sd option.case parse0)
  from a m1 have "sync_stream ?ext ex_config ?st ex_table_spec ex_stream ex_world =
          (case get_input_files_for_table ?ext ex_config ex_table_spec jan15 of
             Inl e \<Rightarrow>
               (Inl e, ?st, info (GettingFiles jan15) (info (SyncingTable ?tn) ex_world))
           | Inr s3_files \<Rightarrow>
               (case sync_files ?ext ex_config ex_table_spec ex_stream ?tn
                       (sort_key (\<lambda>item. instant (last_modified item)) s3_files) 0 ?st
                       (info (GettingFiles jan15) (info (SyncingTable ?tn) ex_world)) of
                  (Inl e, state', w2) \<Rightarrow> (Inl e, state', w2)
                | (Inr records_streamed, state', w2) \<Rightarrow>
                    (Inr records_streamed, state',
                     info (WroteRecords records_streamed ?tn) w2)))"
    by blast
  then have r1: "fst (sync_stream ?ext ex_config ?st ex_table_spec ex_stream ex_world) = Inr 0"
    by (simp add: d1)
  from b m2 have "sync_stream ?ext ex_config Map.empty ex_table_spec ex_stream ex_world =
          (case get_input_files_for_table ?ext ex_config ex_table_spec jan01 of
             Inl e \<Rightarrow>
               (Inl e, Map.empty, info (GettingFiles jan01) (info (SyncingTable ?tn) ex_world))
           | Inr s3_files \<Rightarrow>
               (case sync_files ?ext ex_config ex_table_spec ex_stream ?tn
                       (sort_key (\<lambda>item. instant (last_modified item)) s3_files) 0 Map.empty
                       (info (GettingFiles jan01) (info (SyncingTable ?tn) ex_world)) of
                  (Inl e, state', w2) \<Rightarrow> (Inl e, state', w2)
                | (Inr records_streamed, state', w2) \<Rightarrow>
                    (Inr records_streamed, state',
                     info (WroteRecords records_streamed ?tn) w2)))"
    by blast
  then have r0: "fst (sync_stream ?ext ex_config Map.empty ex_table_spec ex_stream ex_world)
                   = Inl (CollaboratorError ''OtherWatermark'')"
    by (simp add: d0)
  from h1 sd m1 r1 h2 m2 r0 show ?thesis by blast
qed

lemma sync_stream_run:
  assumes "modified_since ext config state (full_table_name config table_spec) = Inr since"
    and "get_input_files_for_table ext config table_spec since = Inr fs"
    and "sync_stream ext config state table_spec stream w = (r, state', w')"
  shows "\<exists>n. n \<le> length fs \<and>
       state' = last (state # checkpoints ext (full_table_name config table_spec) state
                  (take n (sort_key (\<lambda>item. instant (last_modified item)) fs))) \<and>
       marks (trace w') = marks (trace w) @
          concat (map (\<lambda>(g, s). [Inl (key g), Inr s])
                      (zip (take n (sort_key (\<lambda>item. instant (last_modified item)) fs))
                           (checkpoints ext (full_table_name config table_spec) state
                              (take n (sort_key (\<lambda>item. instant (last_modified item)) fs))))) @
          (case r of
             Inl e \<Rightarrow> [Inl (key (sort_key (\<lambda>item. instant (last_modified item)) fs ! n))]
           | Inr cnt \<Rightarrow> []) \<and>
       (\<forall>i<n. \<exists>k. fst (sync_table_file ext config
                          (key (sort_key (\<lambda>item. instant (last_modified item)) fs ! i))
                          table_spec stream w0) = Inr k) \<and>
       (case r of
          Inl e \<Rightarrow> n < length fs \<and>
                   fst (sync_table_file ext config
                          (key (sort_key (\<lambda>item. instant (last_modified item)) fs ! n))
                          table_spec stream w0) = Inl e
        | Inr cnt \<Rightarrow> n = length fs)"
proof -
  let ?tn = "full_table_name config table_spec"
  let ?w1 = "info (GettingFiles since) (info (SyncingTable ?tn) w)"
  let ?gs = "sort_key (\<lambda>item. instant (last_modified item)) fs"
  obtain r2 st2 w2 where run: "sync_files ext config table_spec stream ?tn ?gs 0 state ?w1
      = (r2, st2, w2)"
    by (cases "sync_files ext config table_spec stream ?tn ?gs 0 state ?w1") auto
  have w1: "marks (trace ?w1) = marks (trace w)"
    by (simp add: info_def marks_append)
  have res: "r = r2 \<and> state' = st2 \<and> marks (trace w') = marks (trace w2)"
    using assms run by (cases r2) (auto simp: sync_stream_def Let_def info_def marks_append)
  have len: "length ?gs = length fs" by simp
  from res have r: "r2 = r" "st2 = state'" "marks (trace w2) = marks (trace w')"
    by simp_all
  from sync_files_run [OF run, of w0] show ?thesis
    unfolding r w1 len .
qed

lemma ex_file_feb:
  "sync_table_file (ex_ext fs) ex_config (u ''feb.csv'') ex_table_spec ex_stream w =
     (Inr 3,
      w\<lparr>trace := trace w @
          [Info (SyncingFile (u ''feb.csv'')),
           RecordMsg (u ''orders'') ex_row_null (now (ex_ext fs) (ticks w)),
           RecordMsg (u ''orders'') ex_row_null (now (ex_ext fs) (Suc (ticks w))),
           RecordMsg (u ''orders'') ex_row_null (now (ex_ext fs) (Suc (Suc (ticks w))))],
        ticks := Suc (Suc (Suc (ticks w))),
        open_streams := \<lparr>source_key = u ''feb.csv'', raw_stream = u ''feb.csv''\<rparr> # open_streams w,
        csv_field_size_limit := maxsize\<rparr>)"
  by (simp add: sync_table_file_def get_file_handle_def Let_def ex_ext_def ex_config_def
                info_def utils_now_def write_record_def ex_row_normalized
                ex_row_null_def full_table_name_def ex_table_spec_def u_def)

lemma ex_file_feb2:
  "sync_table_file (ex_ext fs) ex_config (u ''feb2.csv'') ex_table_spec ex_stream w =
     (Inr 3,
      w\<lparr>trace := trace w @
          [Info (SyncingFile (u ''feb2.csv'')),
           RecordMsg (u ''orders'') ex_row_null (now (ex_ext fs) (ticks w)),
           RecordMsg (u ''orders'') ex_row_null (now (ex_ext fs) (Suc (ticks w))),
           RecordMsg (u ''orders'') ex_row_null (now (ex_ext fs) (Suc (Suc (ticks w))))],
        ticks := Suc (Suc (Suc (ticks w))),
        open_streams := \<lparr>source_key = u ''feb2.csv'', raw_stream = u ''feb2.csv''\<rparr> # open_streams w,
        csv_field_size_limit := maxsize\<rparr>)"
  by (simp add: sync_table_file_def get_file_handle_def Let_def ex_ext_def ex_config_def
                info_def utils_now_def write_record_def ex_row_normalized
                ex_row_null_def full_table_name_def ex_table_spec_def u_def)

lemma ex_file_jan:
  "sync_table_file (ex_ext fs) ex_config (u ''jan.csv'') ex_table_spec ex_stream w =
     (Inr 2,
      w\<lparr>trace := trace w @
          [Info (SyncingFile (u ''jan.csv'')),
           RecordMsg (u ''orders'') ex_row_null (now (ex_ext fs) (ticks w)),
           RecordMsg (u ''orders'') ex_row_null (now (ex_ext fs) (Suc (ticks w)))],
        ticks := Suc (Suc (ticks w)),
        open_streams := \<lparr>source_key = u ''jan.csv'', raw_stream = u ''jan.csv''\<rparr> # open_streams w,
        csv_field_size_limit := maxsize\<rparr>)"
  by (simp add: sync_table_file_def get_file_handle_def Let_def ex_ext_def ex_config_def
                info_def utils_now_def write_record_def ex_row_normalized
                ex_row_null_def full_table_name_def ex_table_spec_def u_def)

lemma ex_file_bad:
  "sync_table_file (ex_ext fs) ex_config (u ''bad.csv'') ex_table_spec ex_stream w =
     (Inl (CollaboratorError ''SchemaMismatch''),
      w\<lparr>trace := trace w @
          [Info (SyncingFile (u ''bad.csv'')),
           RecordMsg (u ''orders'') ex_row_null (now (ex_ext fs) (ticks w))],
        ticks := Suc (Suc (ticks w)),
        open_streams := \<lparr>source_key = u ''bad.csv'', raw_stream = u ''bad.csv''\<rparr> # open_streams w,
        csv_field_size_limit := maxsize\<rparr>)"
  by (simp add: sync_table_file_def get_file_handle_def Let_def ex_ext_def ex_config_def
                info_def utils_now_def write_record_def ex_row_normalized
                ex_row_null_def full_table_name_def ex_table_spec_def u_def
                set_empty_values_null_Scalar not_isspace_str_int)

lemma ex_since:
  "modified_since (ex_ext fs) ex_config Map.empty (full_table_name ex_config ex_table_spec)
     = Inr jan01"
  by (simp add: modified_since_def get_bookmark_def ex_config_def ex_ext_def)

lemma ex_discovery:
  "get_input_files_for_table (ex_ext fs) ex_config ex_table_spec since = Inr fs"
  by (simp add: get_input_files_for_table_def ex_ext_def)

lemma ex_sorted_ties:
  "sort_key (\<lambda>item. instant (last_modified item)) [file_feb, file_feb2] = [file_feb, file_feb2]"
  by (simp add: file_feb_def file_feb2_def)

lemma ex_sorted_jan_feb:
  "sort_key (\<lambda>item. instant (last_modified item)) [file_feb, file_jan] = [file_jan, file_feb]"
  by (simp add: file_feb_def file_jan_def feb01_def jan15_def)

lemma ex_sorted_jan_bad:
  "sort_key (\<lambda>item. instant (last_modified item)) [file_bad, file_jan] = [file_jan, file_bad]"
  by (simp add: file_bad_def file_jan_def feb01_def jan15_def)

lemma ex_keys:
  "key file_jan = u ''jan.csv''" "key file_feb = u ''feb.csv''"
  "key file_feb2 = u ''feb2.csv''" "key file_bad = u ''bad.csv''"
  by (simp_all add: file_jan_def file_feb_def file_feb2_def file_bad_def)

text \<open>
  Claim C3 says that the files are synced in strictly ascending order of modification
  time. Two files with the same modification time are both synced, one after the
  other: the order of their times is not strict.
\<close>

theorem sync_stream_ties_example:
  "invoked (trace (snd (snd (sync_stream (ex_ext [file_feb, file_feb2]) ex_config Map.empty
                               ex_table_spec ex_stream ex_world))))
     = [key file_feb, key file_feb2] \<and>
   fst (sync_stream (ex_ext [file_feb, file_feb2]) ex_config Map.empty
          ex_table_spec ex_stream ex_world) = Inr 6 \<and>
   \<not> instant (last_modified file_feb) < instant (last_modified file_feb2)"
  by (simp add: sync_stream_def ex_since ex_discovery ex_sorted_ties Let_def ex_keys
                ex_file_feb ex_file_feb2 info_def write_state_def ex_world_def
                file_feb_def file_feb2_def)

lemma get_bookmark_foldl_last:
  "pre \<noteq> [] \<Longrightarrow>
     get_bookmark (foldl (\<lambda>s g. write_bookmark s tname (u ''modified_since'')
                                 (isoformat ext (last_modified g))) st pre)
       tname (u ''modified_since'') = Some (isoformat ext (last_modified (last pre)))"
  by (induction pre rule: rev_induct) (simp_all add: get_bookmark_write_same)

text \<open>
  Claim C3, amended. Whatever the order discovery returns the files in, the File Sync
  Unit is invoked on them in the order of a stable sort by modification time: the
  invocations are the first \<open>n\<close> files of the sorted list (all of them when the run
  succeeds, up to and including the failing file otherwise), the sorted list is a
  rearrangement of the discovered files in non-decreasing order of time, and strictly
  ascending when the modification times are pairwise different.
\<close>

theorem sync_stream_order:
  assumes "modified_since ext config state (full_table_name config table_spec) = Inr since"
    and "get_input_files_for_table ext config table_spec since = Inr fs"
    and "sync_stream ext config state table_spec stream w = (r, state', w')"
  shows "\<exists>n. n \<le> length fs \<and>
     invoked (trace w') = invoked (trace w) @
        map key (take n (sort_key (\<lambda>item. instant (last_modified item)) fs)) \<and>
     (case r of Inl e \<Rightarrow> 0 < n | Inr cnt \<Rightarrow> n = length fs) \<and>
     mset (sort_key (\<lambda>item. instant (last_modified item)) fs) = mset fs \<and>
     sorted (map (\<lambda>item. instant (last_modified item))
               (sort_key (\<lambda>item. instant (last_modified item)) fs)) \<and>
     (distinct (map (\<lambda>item. instant (last_modified item)) fs) \<longrightarrow>
        sorted_wrt (<) (map (\<lambda>item. instant (last_modified item))
                         (sort_key (\<lambda>item. instant (last_modified item)) fs)))"
proof -
  let ?t = "\<lambda>item. instant (last_modified item)"
  let ?gs = "sort_key ?t fs"
  let ?tn = "full_table_name config table_spec"
  from sync_stream_run [OF assms, of w] obtain m where m: "m \<le> length fs"
    and mk: "marks (trace w') = marks (trace w) @
          concat (map (\<lambda>(g, s). [Inl (key g), Inr s])
                      (zip (take m ?gs) (checkpoints ext ?tn state (take m ?gs)))) @
          (case r of Inl e \<Rightarrow> [Inl (key (?gs ! m))] | Inr cnt \<Rightarrow> [])"
    and fin: "(case r of
          Inl e \<Rightarrow> m < length fs \<and>
                   fst (sync_table_file ext config (key (?gs ! m)) table_spec stream w) = Inl e
        | Inr cnt \<Rightarrow> m = length fs)"
    by blast
  have blocks: "concat (map (case_sum (\<lambda>p. [p]) (\<lambda>s. []))
       (concat (map (\<lambda>(g, s). [Inl (key g), Inr s])
                  (zip (take m ?gs) (checkpoints ext ?tn state (take m ?gs))))))
       = map key (take m ?gs)"
    by (rule lefts_blocks) (simp add: length_checkpoints)
  have inv: "invoked (trace w') = invoked (trace w) @ map key (take m ?gs) @
               (case r of Inl e \<Rightarrow> [key (?gs ! m)] | Inr cnt \<Rightarrow> [])"
    unfolding invoked_marks mk using blocks by (simp split: sum.splits)
  have sorted_facts: "mset ?gs = mset fs \<and> sorted (map ?t ?gs) \<and>
     (distinct (map ?t fs) \<longrightarrow> sorted_wrt (<) (map ?t ?gs))"
  proof (intro conjI impI)
    show "mset ?gs = mset fs" by simp
    show "sorted (map ?t ?gs)" by simp
    assume d: "distinct (map ?t fs)"
    have "mset (map ?t ?gs) = mset (map ?t fs)" by simp
    then have "distinct (map ?t ?gs)"
      using d by (metis mset_eq_imp_distinct_iff)
    then show "sorted_wrt (<) (map ?t ?gs)"
      by (simp add: strict_sorted_iff)
  qed
  show ?thesis
  proof (cases r)
    case (Inl e)
    with fin have lt: "m < length ?gs" by simp
    have "take (Suc m) ?gs = take m ?gs @ [?gs ! m]"
      using lt by (rule take_Suc_conv_app_nth)
    with inv Inl have "invoked (trace w') = invoked (trace w) @ map key (take (Suc m) ?gs)"
      by simp
    moreover have "Suc m \<le> length fs" using lt by simp
    ultimately show ?thesis using Inl sorted_facts by (intro exI [of _ "Suc m"]) simp
  next
    case (Inr cnt)
    with inv fin sorted_facts show ?thesis by (intro exI [of _ m]) simp
  qed
qed


lemma ex_run_jan_feb:
  "fst (sync_stream (ex_ext [file_feb, file_jan]) ex_config Map.empty ex_table_spec ex_stream
          ex_world) = Inr 5"
  by (simp add: sync_stream_def ex_since ex_discovery ex_sorted_jan_feb Let_def ex_keys
                ex_file_feb ex_file_jan info_def write_state_def)

theorem sync_stream_order_witness:
  "modified_since (ex_ext [file_feb, file_jan]) ex_config Map.empty
     (full_table_name ex_config ex_table_spec) = Inr jan01 \<and>
   get_input_files_for_table (ex_ext [file_feb, file_jan]) ex_config ex_table_spec jan01
     = Inr [file_feb, file_jan] \<and>
   distinct (map (\<lambda>item. instant (last_modified item)) [file_feb, file_jan]) \<and>
   invoked (trace (snd (snd (sync_stream (ex_ext [file_feb, file_jan]) ex_config Map.empty
                               ex_table_spec ex_stream ex_world))))
     = invoked (trace ex_world) @ map key [file_jan, file_feb] \<and>
   sorted_wrt (<) (map (\<lambda>item. instant (last_modified item))
                     (sort_key (\<lambda>item. instant (last_modified item)) [file_feb, file_jan]))"
proof -
  let ?ext = "ex_ext [file_feb, file_jan]"
  let ?run = "sync_stream ?ext ex_config Map.empty ex_table_spec ex_stream ex_world"
  have since: "modified_since ?ext ex_config Map.empty
     (full_table_name ex_config ex_table_spec) = Inr jan01"
    by (rule ex_since)
  have disc: "get_input_files_for_table ?ext ex_config ex_table_spec jan01
     = Inr [file_feb, file_jan]"
    by (rule ex_discovery)
  have run: "?run = (Inr 5, fst (snd ?run), snd (snd ?run))"
    using ex_run_jan_feb by (metis prod.collapse)
  have dist: "distinct (map (\<lambda>item. instant (last_modified item)) [file_feb, file_jan])"
    by (simp add: file_feb_def file_jan_def feb01_def jan15_def)
  from sync_stream_order [OF since disc run] dist
  have "invoked (trace (snd (snd ?run))) = invoked (trace ex_world) @
          map key (take 2 (sort_key (\<lambda>item. instant (last_modified item)) [file_feb, file_jan]))"
    and "sorted_wrt (<) (map (\<lambda>item. instant (last_modified item))
           (sort_key (\<lambda>item. instant (last_modified item)) [file_feb, file_jan]))"
    by auto
  then have "invoked (trace (snd (snd ?run))) = invoked (trace ex_world) @
          map key [file_jan, file_feb]"
    and "sorted_wrt (<) (map (\<lambda>item. instant (last_modified item))
           (sort_key (\<lambda>item. instant (last_modified item)) [file_feb, file_jan]))"
    unfolding ex_sorted_jan_feb by simp_all
  with since disc dist show ?thesis by blast
qed

text \<open>
  Claim C1. In every run of the orchestrator that reaches the file loop, \<open>n\<close> files
  complete (all of them when the run succeeds). The file-level marks of the trace
  alternate: the unit starts on a file, then the state is written, and only then does
  the unit start on the next file. The state written after the \<open>i\<close>-th file has the
  table's \<open>modified_since\<close> bookmark equal to the ISO form of that file's modification
  time and every other bookmark as in the state the run was given; the state the run
  ends with is the last one written. The modification times of the completed files,
  whose ISO forms are the successive bookmark values, are non-decreasing, and none is
  before the starting watermark when discovery returned no file before it.
\<close>

theorem sync_stream_checkpoints:
  assumes "modified_since ext config state (full_table_name config table_spec) = Inr since"
    and "get_input_files_for_table ext config table_spec since = Inr fs"
    and "sync_stream ext config state table_spec stream w = (r, state', w')"
  shows "\<exists>n ss. n \<le> length fs \<and> length ss = n \<and>
     (case r of Inl e \<Rightarrow> n < length fs | Inr cnt \<Rightarrow> n = length fs) \<and>
     marks (trace w') = marks (trace w) @
        concat (map (\<lambda>(g, s). [Inl (key g), Inr s])
                  (zip (take n (sort_key (\<lambda>item. instant (last_modified item)) fs)) ss)) @
        (case r of
           Inl e \<Rightarrow> [Inl (key (sort_key (\<lambda>item. instant (last_modified item)) fs ! n))]
         | Inr cnt \<Rightarrow> []) \<and>
     (\<forall>i<n. get_bookmark (ss ! i) (full_table_name config table_spec) (u ''modified_since'')
              = Some (isoformat ext
                        (last_modified (sort_key (\<lambda>item. instant (last_modified item)) fs ! i))) \<and>
            (\<forall>t k. (t, k) \<noteq> (full_table_name config table_spec, u ''modified_since'') \<longrightarrow>
                   get_bookmark (ss ! i) t k = get_bookmark state t k)) \<and>
     state' = last (state # ss) \<and>
     sorted (map (\<lambda>item. instant (last_modified item))
               (take n (sort_key (\<lambda>item. instant (last_modified item)) fs))) \<and>
     ((\<forall>f\<in>set fs. instant since \<le> instant (last_modified f)) \<longrightarrow>
        (\<forall>g\<in>set (take n (sort_key (\<lambda>item. instant (last_modified item)) fs)).
            instant since \<le> instant (last_modified g)))"
proof -
  let ?t = "\<lambda>item. instant (last_modified item)"
  let ?gs = "sort_key ?t fs"
  let ?tn = "full_table_name config table_spec"
  from sync_stream_run [OF assms, of w] obtain n where n: "n \<le> length fs"
    and st: "state' = last (state # checkpoints ext ?tn state (take n ?gs))"
    and mk: "marks (trace w') = marks (trace w) @
          concat (map (\<lambda>(g, s). [Inl (key g), Inr s])
                      (zip (take n ?gs) (checkpoints ext ?tn state (take n ?gs)))) @
          (case r of Inl e \<Rightarrow> [Inl (key (?gs ! n))] | Inr cnt \<Rightarrow> [])"
    and fin: "(case r of
          Inl e \<Rightarrow> n < length fs \<and>
                   fst (sync_table_file ext config (key (?gs ! n)) table_spec stream w) = Inl e
        | Inr cnt \<Rightarrow> n = length fs)"
    by blast
  let ?ss = "checkpoints ext ?tn state (take n ?gs)"
  have len: "length ?ss = n"
    using n by (simp add: length_checkpoints)
  have fin': "(case r of Inl e \<Rightarrow> n < length fs | Inr cnt \<Rightarrow> n = length fs)"
    using fin by (cases r) simp_all
  have bm: "\<forall>i<n. get_bookmark (?ss ! i) ?tn (u ''modified_since'')
              = Some (isoformat ext (last_modified (?gs ! i))) \<and>
            (\<forall>t k. (t, k) \<noteq> (?tn, u ''modified_since'') \<longrightarrow>
                   get_bookmark (?ss ! i) t k = get_bookmark state t k)"
  proof (intro allI impI conjI)
    fix i assume i: "i < n"
    then have il: "i < length (take n ?gs)" using n by simp
    from checkpoints_nth_same [OF il, of ext ?tn state] i
    show "get_bookmark (?ss ! i) ?tn (u ''modified_since'')
              = Some (isoformat ext (last_modified (?gs ! i)))"
      by simp
    fix t k assume "(t, k) \<noteq> (?tn, u ''modified_since'')"
    from checkpoints_nth_other [OF il this]
    show "get_bookmark (?ss ! i) t k = get_bookmark state t k" .
  qed
  have srt: "sorted (map ?t (take n ?gs))"
  proof -
    have "sorted (map ?t ?gs)" by simp
    then have "sorted (take n (map ?t ?gs))" by (rule sorted_wrt_take)
    then show ?thesis by (simp add: take_map)
  qed
  have bound: "(\<forall>f\<in>set fs. instant since \<le> ?t f) \<longrightarrow>
        (\<forall>g\<in>set (take n ?gs). instant since \<le> ?t g)"
  proof (intro impI ballI)
    fix g assume all: "\<forall>f\<in>set fs. instant since \<le> ?t f" and g: "g \<in> set (take n ?gs)"
    from g have "g \<in> set ?gs" by (rule in_set_takeD)
    then have "g \<in> set fs" by simp
    with all show "instant since \<le> ?t g" by blast
  qed
  from n len fin' mk bm st srt bound show ?thesis by blast
qed


theorem sync_stream_checkpoints_witness:
  "modified_since (ex_ext [file_feb, file_jan]) ex_config Map.empty
     (full_table_name ex_config ex_table_spec) = Inr jan01 \<and>
   get_input_files_for_table (ex_ext [file_feb, file_jan]) ex_config ex_table_spec jan01
     = Inr [file_feb, file_jan] \<and>
   fst (sync_stream (ex_ext [file_feb, file_jan]) ex_config Map.empty ex_table_spec ex_stream
          ex_world) = Inr 5 \<and>
   instant jan01 \<le> instant (last_modified file_feb) \<and>
   instant jan01 \<le> instant (last_modified file_jan) \<and>
   (\<exists>s1 s2.
      marks (trace (snd (snd (sync_stream (ex_ext [file_feb, file_jan]) ex_config Map.empty
                                ex_table_spec ex_stream ex_world))))
        = marks (trace ex_world) @ [Inl (key file_jan), Inr s1, Inl (key file_feb), Inr s2] \<and>
      get_bookmark s1 (full_table_name ex_config ex_table_spec) (u ''modified_since'')
        = Some (isoformat (ex_ext [file_feb, file_jan]) (last_modified file_jan)) \<and>
      get_bookmark s2 (full_table_name ex_config ex_table_spec) (u ''modified_since'')
        = Some (isoformat (ex_ext [file_feb, file_jan]) (last_modified file_feb)) \<and>
      fst (snd (sync_stream (ex_ext [file_feb, file_jan]) ex_config Map.empty ex_table_spec
                  ex_stream ex_world)) = s2) \<and>
   instant (last_modified file_jan) \<le> instant (last_modified file_feb) \<and>
   instant jan01 \<le> instant (last_modified file_jan)"
proof -
  let ?ext = "ex_ext [file_feb, file_jan]"
  let ?run = "sync_stream ?ext ex_config Map.empty ex_table_spec ex_stream ex_world"
  let ?tn = "full_table_name ex_config ex_table_spec"
  let ?t = "\<lambda>item. instant (last_modified item)"
  have since: "modified_since ?ext ex_config Map.empty ?tn = Inr jan01"
    by (rule ex_since)
  have disc: "get_input_files_for_table ?ext ex_config ex_table_spec jan01
     = Inr [file_feb, file_jan]"
    by (rule ex_discovery)
  have run: "?run = (Inr 5, fst (snd ?run), snd (snd ?run))"
    using ex_run_jan_feb by (metis prod.collapse)
  have after: "\<forall>f\<in>set [file_feb, file_jan]. instant jan01 \<le> ?t f"
    by (simp add: file_feb_def file_jan_def feb01_def jan15_def jan01_def)
  from sync_stream_checkpoints [OF since disc run, unfolded sum.case] obtain n ss where
        n: "n = length [file_feb, file_jan]" and len: "length ss = n"
    and mk: "marks (trace (snd (snd ?run))) = marks (trace ex_world) @
        concat (map (\<lambda>(g, s). [Inl (key g), Inr s])
                  (zip (take n (sort_key ?t [file_feb, file_jan])) ss)) @ []"
    and bm: "\<forall>i<n. get_bookmark (ss ! i) ?tn (u ''modified_since'')
              = Some (isoformat ?ext (last_modified (sort_key ?t [file_feb, file_jan] ! i))) \<and>
            (\<forall>t k. (t, k) \<noteq> (?tn, u ''modified_since'') \<longrightarrow>
                   get_bookmark (ss ! i) t k = get_bookmark Map.empty t k)"
    and st: "fst (snd ?run) = last (Map.empty # ss)"
    and srt: "sorted (map ?t (take n (sort_key ?t [file_feb, file_jan])))"
    and bound: "(\<forall>f\<in>set [file_feb, file_jan]. instant jan01 \<le> ?t f) \<longrightarrow>
        (\<forall>g\<in>set (take n (sort_key ?t [file_feb, file_jan])). instant jan01 \<le> ?t g)"
    by blast
  from n have n2: "n = 2" by simp
  from len n2 obtain s1 s2 where ss: "ss = [s1, s2]"
    by (cases ss; cases "tl ss") auto
  have m: "marks (trace (snd (snd ?run)))
        = marks (trace ex_world) @ [Inl (key file_jan), Inr s1, Inl (key file_feb), Inr s2]"
    using mk unfolding ex_sorted_jan_feb n2 ss by simp
  have b1: "get_bookmark s1 ?tn (u ''modified_since'')
        = Some (isoformat ?ext (last_modified file_jan))"
    using bm [rule_format, of 0] unfolding ex_sorted_jan_feb n2 ss by simp
  have b2: "get_bookmark s2 ?tn (u ''modified_since'')
        = Some (isoformat ?ext (last_modified file_feb))"
    using bm [rule_format, of 1] unfolding ex_sorted_jan_feb n2 ss by simp
  have fin: "fst (snd ?run) = s2"
    using st unfolding ss by simp
  have mono: "?t file_jan \<le> ?t file_feb"
    using srt unfolding ex_sorted_jan_feb n2 by simp
  have lower: "instant jan01 \<le> ?t file_jan"
    using bound after unfolding ex_sorted_jan_feb n2 by simp
  from after have a: "instant jan01 \<le> ?t file_feb" "instant jan01 \<le> ?t file_jan"
    by simp_all
  from since disc ex_run_jan_feb a m b1 b2 fin mono lower show ?thesis by blast
qed

text \<open>
  Claim C2. Let the sorted files be \<open>pre @ f # post\<close>, where the files of \<open>pre\<close>
  sync without error and the File Sync Unit fails on \<open>f\<close> with error \<open>e\<close> (a
  transformer failure in the example). Then the orchestrator ends with that same error;
  the state has been updated for the files of \<open>pre\<close> only, so the bookmark is the ISO
  form of the modification time of the last file of \<open>pre\<close>, or the bookmark from
  before the run when \<open>f\<close> is the first file; exactly one state per file of \<open>pre\<close>
  was written, none for \<open>f\<close>; and no file of \<open>post\<close> was started.
\<close>

theorem sync_stream_failure:
  assumes since: "modified_since ext config state (full_table_name config table_spec) = Inr since"
    and disc: "get_input_files_for_table ext config table_spec since = Inr fs"
    and split: "sort_key (\<lambda>item. instant (last_modified item)) fs = pre @ f # post"
    and pre_ok: "\<forall>g\<in>set pre.
                   \<exists>k. fst (sync_table_file ext config (key g) table_spec stream w0) = Inr k"
    and f_fails: "fst (sync_table_file ext config (key f) table_spec stream w0) = Inl e"
  shows "fst (sync_stream ext config state table_spec stream w) = Inl e \<and>
     fst (snd (sync_stream ext config state table_spec stream w))
       = foldl (\<lambda>s g. write_bookmark s (full_table_name config table_spec) (u ''modified_since'')
                        (isoformat ext (last_modified g))) state pre \<and>
     get_bookmark (fst (snd (sync_stream ext config state table_spec stream w)))
         (full_table_name config table_spec) (u ''modified_since'')
       = (if pre = []
          then get_bookmark state (full_table_name config table_spec) (u ''modified_since'')
          else Some (isoformat ext (last_modified (last pre)))) \<and>
     persisted (trace (snd (snd (sync_stream ext config state table_spec stream w))))
       = persisted (trace w) @ checkpoints ext (full_table_name config table_spec) state pre \<and>
     length (checkpoints ext (full_table_name config table_spec) state pre) = length pre \<and>
     invoked (trace (snd (snd (sync_stream ext config state table_spec stream w))))
       = invoked (trace w) @ map key pre @ [key f]"
proof -
  let ?t = "\<lambda>item. instant (last_modified item)"
  let ?gs = "sort_key ?t fs"
  let ?tn = "full_table_name config table_spec"
  let ?run = "sync_stream ext config state table_spec stream w"
  obtain r state' w' where run: "?run = (r, state', w')"
    by (cases ?run) auto
  from sync_stream_run [OF since disc run, of w0] obtain n where n: "n \<le> length fs"
    and st: "state' = last (state # checkpoints ext ?tn state (take n ?gs))"
    and mk: "marks (trace w') = marks (trace w) @
          concat (map (\<lambda>(g, s). [Inl (key g), Inr s])
                      (zip (take n ?gs) (checkpoints ext ?tn state (take n ?gs)))) @
          (case r of Inl e \<Rightarrow> [Inl (key (?gs ! n))] | Inr cnt \<Rightarrow> [])"
    and ok: "\<forall>i<n. \<exists>k. fst (sync_table_file ext config (key (?gs ! i)) table_spec stream w0)
                        = Inr k"
    and fin: "(case r of
          Inl e \<Rightarrow> n < length fs \<and>
                   fst (sync_table_file ext config (key (?gs ! n)) table_spec stream w0) = Inl e
        | Inr cnt \<Rightarrow> n = length fs)"
    by blast
  have len: "length ?gs = length fs" by simp
  have at_f: "?gs ! length pre = f" using split by simp
  have "length ?gs = length (pre @ f # post)" by (simp only: split)
  then have lp: "length pre < length fs" using len by simp
  have not_gt: "\<not> length pre < n"
  proof
    assume "length pre < n"
    with ok have "\<exists>k. fst (sync_table_file ext config (key (?gs ! length pre)) table_spec
                         stream w0) = Inr k"
      by blast
    then have "\<exists>k. fst (sync_table_file ext config (key f) table_spec stream w0) = Inr k"
      by (simp only: at_f)
    with f_fails show False by simp
  qed
  have r_fail: "\<exists>e'. r = Inl e'"
  proof (cases r)
    case (Inl e')
    then show ?thesis by blast
  next
    case (Inr cnt)
    with fin have "n = length fs" by simp
    with lp not_gt show ?thesis by simp
  qed
  then obtain e' where r: "r = Inl e'" by blast
  with fin have nlt: "n < length fs"
    and fails_n: "fst (sync_table_file ext config (key (?gs ! n)) table_spec stream w0) = Inl e'"
    by simp_all
  have not_lt: "\<not> n < length pre"
  proof
    assume lt: "n < length pre"
    then have eq: "?gs ! n = pre ! n" by (simp only: split nth_append if_True)
    have "pre ! n \<in> set pre" using lt by simp
    with pre_ok have
      "\<exists>k. fst (sync_table_file ext config (key (pre ! n)) table_spec stream w0) = Inr k"
      by blast
    with fails_n show False by (simp only: eq) simp
  qed
  from not_lt not_gt have n_eq: "n = length pre" by simp
  have e_eq: "e' = e" using fails_n f_fails unfolding n_eq at_f by simp
  have tk: "take (length pre) ?gs = pre" unfolding split by simp
  have proj: "fst ?run = r" "fst (snd ?run) = state'" "snd (snd ?run) = w'"
    by (simp_all only: run fst_conv snd_conv)
  have res1: "fst ?run = Inl e" unfolding proj using r e_eq by simp
  have res2: "fst (snd ?run) = foldl (\<lambda>s g. write_bookmark s ?tn (u ''modified_since'')
                        (isoformat ext (last_modified g))) state pre"
    unfolding proj st n_eq tk by (rule last_checkpoints_foldl)
  have res3: "get_bookmark (fst (snd ?run)) ?tn (u ''modified_since'')
       = (if pre = [] then get_bookmark state ?tn (u ''modified_since'')
          else Some (isoformat ext (last_modified (last pre))))"
  proof (cases "pre = []")
    case True
    with res2 show ?thesis by simp
  next
    case False
    with res2 get_bookmark_foldl_last [OF False, of ?tn ext state] show ?thesis by simp
  qed
  have lenc: "length (checkpoints ext ?tn state pre) = length pre"
    by (rule length_checkpoints)
  have mk': "marks (trace w') = marks (trace w) @
          concat (map (\<lambda>(g, s). [Inl (key g), Inr s])
                      (zip pre (checkpoints ext ?tn state pre))) @ [Inl (key f)]"
    using mk unfolding r n_eq tk at_f by simp
  have res4: "persisted (trace (snd (snd ?run)))
                = persisted (trace w) @ checkpoints ext ?tn state pre"
    unfolding proj persisted_marks mk' using rights_blocks [OF lenc] by simp
  have res5: "invoked (trace (snd (snd ?run))) = invoked (trace w) @ map key pre @ [key f]"
    unfolding proj invoked_marks mk' using lefts_blocks [OF lenc] by simp
  from res1 res2 res3 res4 lenc res5 show ?thesis by blast
qed


theorem sync_stream_failure_witness:
  "modified_since (ex_ext [file_bad, file_jan]) ex_config Map.empty
     (full_table_name ex_config ex_table_spec) = Inr jan01 \<and>
   get_input_files_for_table (ex_ext [file_bad, file_jan]) ex_config ex_table_spec jan01
     = Inr [file_bad, file_jan] \<and>
   sort_key (\<lambda>item. instant (last_modified item)) [file_bad, file_jan]
     = [file_jan] @ file_bad # [] \<and>
   fst (sync_table_file (ex_ext [file_bad, file_jan]) ex_config (key file_jan) ex_table_spec
          ex_stream ex_world) = Inr 2 \<and>
   fst (sync_table_file (ex_ext [file_bad, file_jan]) ex_config (key file_bad) ex_table_spec
          ex_stream ex_world) = Inl (CollaboratorError ''SchemaMismatch'') \<and>
   fst (sync_stream (ex_ext [file_bad, file_jan]) ex_config Map.empty ex_table_spec ex_stream
          ex_world) = Inl (CollaboratorError ''SchemaMismatch'') \<and>
   get_bookmark
     (fst (snd (sync_stream (ex_ext [file_bad, file_jan]) ex_config Map.empty ex_table_spec
                  ex_stream ex_world)))
     (full_table_name ex_config ex_table_spec) (u ''modified_since'')
     = Some (isoformat (ex_ext [file_bad, file_jan]) (last_modified file_jan)) \<and>
   persisted (trace (snd (snd (sync_stream (ex_ext [file_bad, file_jan]) ex_config Map.empty
                                 ex_table_spec ex_stream ex_world))))
     = persisted (trace ex_world) @
       checkpoints (ex_ext [file_bad, file_jan]) (full_table_name ex_config ex_table_spec)
         Map.empty [file_jan] \<and>
   invoked (trace (snd (snd (sync_stream (ex_ext [file_bad, file_jan]) ex_config Map.empty
                               ex_table_spec ex_stream ex_world))))
     = invoked (trace ex_world) @ [key file_jan, key file_bad]"
proof -
  let ?ext = "ex_ext [file_bad, file_jan]"
  have since: "modified_since ?ext ex_config Map.empty
     (full_table_name ex_config ex_table_spec) = Inr jan01"
    by (rule ex_since)
  have disc: "get_input_files_for_table ?ext ex_config ex_table_spec jan01
     = Inr [file_bad, file_jan]"
    by (rule ex_discovery)
  have split: "sort_key (\<lambda>item. instant (last_modified item)) [file_bad, file_jan]
     = [file_jan] @ file_bad # []"
    unfolding ex_sorted_jan_bad by simp
  have jan: "fst (sync_table_file ?ext ex_config (key file_jan) ex_table_spec ex_stream
                ex_world) = Inr 2"
    by (simp add: ex_keys ex_file_jan)
  have bad: "fst (sync_table_file ?ext ex_config (key file_bad) ex_table_spec ex_stream
                ex_world) = Inl (CollaboratorError ''SchemaMismatch'')"
    by (simp add: ex_keys ex_file_bad)
  have pre_ok: "\<forall>g\<in>set [file_jan].
      \<exists>k. fst (sync_table_file ?ext ex_config (key g) ex_table_spec ex_stream ex_world) = Inr k"
    using jan by simp
  note t = sync_stream_failure [OF since disc split pre_ok bad, of ex_world]
  let ?run = "sync_stream ?ext ex_config Map.empty ex_table_spec ex_stream ex_world"
  let ?tn = "full_table_name ex_config ex_table_spec"
  from t have c1: "fst ?run = Inl (CollaboratorError ''SchemaMismatch'')"
    by (rule conjunct1)
  from t have c3: "get_bookmark (fst (snd ?run)) ?tn (u ''modified_since'')
       = (if [file_jan] = [] then get_bookmark Map.empty ?tn (u ''modified_since'')
          else Some (isoformat ?ext (last_modified (last [file_jan]))))"
    by blast
  from t have c4: "persisted (trace (snd (snd ?run)))
       = persisted (trace ex_world) @ checkpoints ?ext ?tn Map.empty [file_jan]"
    by blast
  from t have c6: "invoked (trace (snd (snd ?run)))
       = invoked (trace ex_world) @ map key [file_jan] @ [key file_bad]"
    by blast
  from c3 have c3': "get_bookmark (fst (snd ?run)) ?tn (u ''modified_since'')
       = Some (isoformat ?ext (last_modified file_jan))"
    by simp
  from c6 have c6': "invoked (trace (snd (snd ?run)))
       = invoked (trace ex_world) @ [key file_jan, key file_bad]"
    by simp
  from since disc split jan bad c1 c3' c4 c6' show ?thesis by blast
qed

end
